theory Spec2Isabelle
  imports Main
begin

section \<open>Python string primitives used by \<^verbatim>\<open>cloudinit/ssh_util.py\<close>\<close>

text \<open>
  The module is Python 2 code working on byte strings (\<^verbatim>\<open>str\<close>), modelled as
  \<^typ>\<open>string\<close>.  An attribute or argument that may be \<^verbatim>\<open>None\<close> is a
  \<^typ>\<open>string option\<close>; Python's truth test on it (\<^verbatim>\<open>if self.base64\<close>) holds
  for a non-empty string only.
\<close>

definition truthy :: "string option \<Rightarrow> bool" where
  "truthy v = (case v of None \<Rightarrow> False | Some s \<Rightarrow> s \<noteq> [])"

text \<open>\<^verbatim>\<open>str.isspace\<close> of a byte in the C locale: space, TAB, LF, VT, FF, CR.\<close>

definition isspace :: "char \<Rightarrow> bool" where
  "isspace c = (c = CHR '' '' \<or> c = CHR 0x09 \<or> c = CHR 0x0A \<or> c = CHR 0x0B
     \<or> c = CHR 0x0C \<or> c = CHR 0x0D)"

text \<open>\<^verbatim>\<open>s.strip()\<close> and \<^verbatim>\<open>s.rstrip(chars)\<close>.\<close>

definition strip :: "string \<Rightarrow> string" where
  "strip s = rev (dropWhile isspace (rev (dropWhile isspace s)))"

definition rstrip_chars :: "string \<Rightarrow> string \<Rightarrow> string" where
  "rstrip_chars chars s = rev (dropWhile (\<lambda>c. c \<in> set chars) (rev s))"

text \<open>\<^verbatim>\<open>s.startswith(p)\<close>.\<close>

definition startswith :: "string \<Rightarrow> string \<Rightarrow> bool" where
  "startswith s p = (take (length p) s = p)"

text \<open>
  \<^verbatim>\<open>s.split(None, maxsplit)\<close>: runs of whitespace separate the tokens; after
  \<open>maxsplit\<close> tokens the rest of the string, without its leading whitespace, is the last
  token (when it is not empty).
\<close>

fun split_None :: "nat \<Rightarrow> string \<Rightarrow> string list" where
  "split_None 0 s = (let r = dropWhile isspace s in if r = [] then [] else [r])"
| "split_None (Suc n) s =
     (let r = dropWhile isspace s in
      if r = [] then []
      else takeWhile (\<lambda>c. \<not> isspace c) r # split_None n (dropWhile (\<lambda>c. \<not> isspace c) r))"

text \<open>\<^verbatim>\<open>sep.join(xs)\<close>.\<close>

fun join :: "string \<Rightarrow> string list \<Rightarrow> string" where
  "join sep [] = []"
| "join sep [x] = x"
| "join sep (x # y # ys) = x @ sep @ join sep (y # ys)"

text \<open>
  \<^verbatim>\<open>s.splitlines()\<close> of a byte string: a line ends at LF, CR or CR LF; the line ends
  are dropped, and a final line end opens no further line.
\<close>

fun splitlines_from :: "string \<Rightarrow> string \<Rightarrow> string list" where
  "splitlines_from cur [] = (if cur = [] then [] else [cur])"
| "splitlines_from cur [c] =
     (if c = CHR 0x0A \<or> c = CHR 0x0D then [cur] else [cur @ [c]])"
| "splitlines_from cur (c # d # cs) =
     (if c = CHR 0x0D \<and> d = CHR 0x0A then cur # splitlines_from [] cs
      else if c = CHR 0x0A \<or> c = CHR 0x0D then cur # splitlines_from [] (d # cs)
      else splitlines_from (cur @ [c]) (d # cs))"

definition splitlines :: "string \<Rightarrow> string list" where
  "splitlines s = splitlines_from [] s"

text \<open>
  \<^verbatim>\<open>s.replace(old, new)\<close>: every occurrence of \<open>old\<close>, found from the left and not
  overlapping an earlier one, becomes \<open>new\<close>.  With an empty \<open>old\<close> Python puts \<open>new\<close>
  before every character and at the end.
\<close>

function replace :: "string \<Rightarrow> string \<Rightarrow> string \<Rightarrow> string" where
  "replace old new [] = (if old = [] then new else [])"
| "replace old new (c # cs) =
     (if old = [] then new @ c # replace old new cs
      else if startswith (c # cs) old then new @ replace old new (drop (length old) (c # cs))
      else c # replace old new cs)"
  by pat_completeness auto
termination
  by (relation "measure (\<lambda>(old, new, s). length s)") auto

text \<open>\<^verbatim>\<open>s.lower()\<close> of a byte string: the letters A to Z only.\<close>

definition lower_char :: "char \<Rightarrow> char" where
  "lower_char c =
     (if 65 \<le> (of_char c :: nat) \<and> (of_char c :: nat) \<le> 90
      then char_of ((of_char c :: nat) + 32) else c)"

definition lower :: "string \<Rightarrow> string" where
  "lower s = map lower_char s"

section \<open>Authorized-keys entries\<close>

text \<open>
  \<^verbatim>\<open>class AuthKeyLine\<close>: the raw line and the four parsed fields, each of which may
  be \<^verbatim>\<open>None\<close>.
\<close>

record AuthKeyLine =
  base64 :: "string option"
  comment :: "string option"
  options :: "string option"
  keytype :: "string option"
  source :: string

text \<open>The constructor \<^verbatim>\<open>AuthKeyLine(source, keytype, base64, comment, options)\<close>.\<close>

definition mk_AuthKeyLine ::
  "string \<Rightarrow> string option \<Rightarrow> string option \<Rightarrow> string option \<Rightarrow> string option \<Rightarrow> AuthKeyLine" where
  "mk_AuthKeyLine src kt b64 cmt opts =
     \<lparr>base64 = b64, comment = cmt, options = opts, keytype = kt, source = src\<rparr>"

text \<open>\<^verbatim>\<open>AuthKeyLine.empty\<close>: none of the four parsed fields is set.\<close>

definition empty_entry :: "AuthKeyLine \<Rightarrow> bool" where
  "empty_entry e =
     (if \<not> truthy (base64 e) \<and> \<not> truthy (comment e) \<and> \<not> truthy (keytype e)
         \<and> \<not> truthy (options e)
      then True else False)"

text \<open>
  \<^verbatim>\<open>AuthKeyLine.__str__\<close>: the set fields among options, keytype, base64, comment,
  in this order and joined by one space; the raw line when none of them is set.
\<close>

definition str_toks :: "AuthKeyLine \<Rightarrow> string list" where
  "str_toks e =
     (if truthy (options e) then [the (options e)] else []) @
     (if truthy (keytype e) then [the (keytype e)] else []) @
     (if truthy (base64 e) then [the (base64 e)] else []) @
     (if truthy (comment e) then [the (comment e)] else [])"

definition str_AuthKeyLine :: "AuthKeyLine \<Rightarrow> string" where
  "str_AuthKeyLine e =
     (let toks = str_toks e in if toks = [] then source e else join '' '' toks)"

section \<open>The csv reader of \<^verbatim>\<open>_extract_options\<close>\<close>

text \<open>
  \<^verbatim>\<open>_extract_options\<close> hands the options field to the standard library:
  \<^verbatim>\<open>csv.reader(StringIO(options), quoting=csv.QUOTE_NONE)\<close>.  The library is not
  part of the module; the definitions below follow Python 2.7's \<^verbatim>\<open>StringIO\<close> and
  \<^verbatim>\<open>Modules/_csv.c\<close> for the dialect this call selects: delimiter \<^verbatim>\<open>,\<close>, no
  quote character in effect (\<^verbatim>\<open>QUOTE_NONE\<close>), no escape character, no skipping of
  initial spaces.  Exceptions are values of the type \<open>error\<close>.
\<close>

datatype error = ValueError | csv_Error | IndexError

text \<open>
  Iterating over a \<^verbatim>\<open>StringIO\<close> yields \<^verbatim>\<open>readline()\<close> results: each line
  with its LF, and a last line without one when the text does not end in LF.
\<close>

fun StringIO_lines :: "string \<Rightarrow> string list" where
  "StringIO_lines [] = []"
| "StringIO_lines (c # cs) =
     (if c = CHR 0x0A then [c] # StringIO_lines cs
      else (case StringIO_lines cs of
              [] \<Rightarrow> [[c]]
            | l # ls \<Rightarrow> (c # l) # ls))"

datatype parser_state = START_RECORD | START_FIELD | IN_FIELD | EAT_CRNL

record reader =
  state :: parser_state
  row :: "string list"
  field :: string

text \<open>\<^verbatim>\<open>csv.field_size_limit()\<close>, 128 KiB by default.\<close>

definition field_limit :: nat where
  "field_limit = 131072"

definition parse_reset :: reader where
  "parse_reset = \<lparr>state = START_RECORD, row = [], field = []\<rparr>"

definition parse_save_field :: "reader \<Rightarrow> reader" where
  "parse_save_field r = r\<lparr>row := row r @ [field r], field := []\<rparr>"

definition parse_add_char :: "reader \<Rightarrow> char \<Rightarrow> error + reader" where
  "parse_add_char r c =
     (if length (field r) \<ge> field_limit then Inl csv_Error
      else Inr (r\<lparr>field := field r @ [c]\<rparr>))"

text \<open>
  The branch \<^verbatim>\<open>START_FIELD\<close> of \<^verbatim>\<open>parse_process_char\<close>; the end of a line is
  passed to the parser as the character NUL.
\<close>

definition start_field :: "reader \<Rightarrow> char \<Rightarrow> error + reader" where
  "start_field r c =
     (if c = CHR 0x0A \<or> c = CHR 0x0D \<or> c = CHR 0x00
      then Inr ((parse_save_field r)\<lparr>state := (if c = CHR 0x00 then START_RECORD else EAT_CRNL)\<rparr>)
      else if c = CHR '','' then Inr (parse_save_field r)
      else (case parse_add_char r c of
              Inl e \<Rightarrow> Inl e
            | Inr r' \<Rightarrow> Inr (r'\<lparr>state := IN_FIELD\<rparr>)))"

definition parse_process_char :: "reader \<Rightarrow> char \<Rightarrow> error + reader" where
  "parse_process_char r c =
     (case state r of
        START_RECORD \<Rightarrow>
          (if c = CHR 0x00 then Inr r
           else if c = CHR 0x0A \<or> c = CHR 0x0D then Inr (r\<lparr>state := EAT_CRNL\<rparr>)
           else start_field (r\<lparr>state := START_FIELD\<rparr>) c)
      | START_FIELD \<Rightarrow> start_field r c
      | IN_FIELD \<Rightarrow>
          (if c = CHR 0x0A \<or> c = CHR 0x0D \<or> c = CHR 0x00
           then Inr ((parse_save_field r)\<lparr>state := (if c = CHR 0x00 then START_RECORD else EAT_CRNL)\<rparr>)
           else if c = CHR '','' then Inr ((parse_save_field r)\<lparr>state := START_FIELD\<rparr>)
           else parse_add_char r c)
      | EAT_CRNL \<Rightarrow>
          (if c = CHR 0x0A \<or> c = CHR 0x0D then Inr r
           else if c = CHR 0x00 then Inr (r\<lparr>state := START_RECORD\<rparr>)
           else Inl csv_Error))"

text \<open>
  \<^verbatim>\<open>Reader_iternext\<close> on one line of input: a NUL byte in the line is an error;
  every other character goes through \<^verbatim>\<open>parse_process_char\<close>, and so does a final
  NUL for the end of the line.
\<close>

fun process_line :: "reader \<Rightarrow> string \<Rightarrow> error + reader" where
  "process_line r [] = parse_process_char r (CHR 0x00)"
| "process_line r (c # cs) =
     (if c = CHR 0x00 then Inl csv_Error
      else (case parse_process_char r c of
              Inl e \<Rightarrow> Inl e
            | Inr r' \<Rightarrow> process_line r' cs))"

text \<open>
  The rows of the reader.  In this dialect the parser is back in \<^verbatim>\<open>START_RECORD\<close>
  at the end of every line (lemma \<open>process_line_state\<close>), so that each line of input is
  one row.
\<close>

fun csv_reader :: "string list \<Rightarrow> error + string list list" where
  "csv_reader [] = Inr []"
| "csv_reader (l # ls) =
     (case process_line parse_reset l of
        Inl e \<Rightarrow> Inl e
      | Inr r \<Rightarrow> (case csv_reader ls of
                    Inl e \<Rightarrow> Inl e
                  | Inr rows \<Rightarrow> Inr (row r # rows)))"

section \<open>\<^verbatim>\<open>AuthKeyLineParser\<close>\<close>

text \<open>
  The scanning loop of \<^verbatim>\<open>_extract_options\<close>: \<open>i\<close> runs over \<open>ent\<close> until a space or
  TAB outside double quotes; \<^verbatim>\<open>\"\<close> is skipped as a pair, and the last character is
  always consumed.
\<close>

function scan_options :: "string \<Rightarrow> bool \<Rightarrow> nat \<Rightarrow> nat" where
  "scan_options ent quoted i =
     (if i < length ent \<and> (quoted \<or> \<not> (ent ! i = CHR '' '' \<or> ent ! i = CHR 0x09)) then
        (if i + 1 \<ge> length ent then i + 1
         else if ent ! i = CHR 0x5C \<and> ent ! (i + 1) = CHR 0x22
              then scan_options ent quoted (i + 1 + 1)
         else if ent ! i = CHR 0x22 then scan_options ent (\<not> quoted) (i + 1)
         else scan_options ent quoted (i + 1))
      else i)"
  by pat_completeness auto
termination
  by (relation "measure (\<lambda>(ent, quoted, i). length ent - i)") auto

declare scan_options.simps [simp del]

text \<open>
  \<^verbatim>\<open>_extract_options\<close>: the options found by the csv reader in \<open>ent[0:i]\<close>, stripped
  and without the empty ones, and up to three tokens of what follows \<open>ent[i]\<close>.
\<close>

definition extract_options :: "string \<Rightarrow> error + (string list \<times> string list)" where
  "extract_options ent =
     (let i = scan_options ent False 0;
          opts = take i ent
      in case csv_reader (StringIO_lines opts) of
           Inl e \<Rightarrow> Inl e
         | Inr rows \<Rightarrow>
             (let options_lst = filter (\<lambda>e. e \<noteq> []) (map strip (concat rows));
                  toks = (if i + 1 < length ent then split_None 2 (drop (i + 1) ent) else [])
              in Inr (options_lst, toks)))"

text \<open>
  \<^verbatim>\<open>_form_components\<close>.  The dictionary always holds the key \<^verbatim>\<open>options\<close>, so the
  branch \<^verbatim>\<open>if not components\<close> is never taken.
\<close>

definition form_components :: "string \<Rightarrow> string list \<Rightarrow> string option \<Rightarrow> AuthKeyLine" where
  "form_components src_line toks opts =
     (if length toks = 1 then mk_AuthKeyLine src_line None (Some (toks ! 0)) None opts
      else if length toks = 2 then mk_AuthKeyLine src_line None (Some (toks ! 0)) (Some (toks ! 1)) opts
      else if length toks = 3
           then mk_AuthKeyLine src_line (Some (toks ! 0)) (Some (toks ! 1)) (Some (toks ! 2)) opts
      else mk_AuthKeyLine src_line None None None opts)"

text \<open>\<^verbatim>\<open>AuthKeyLineParser.parse(src_line, def_opt)\<close>.\<close>

definition parse :: "string \<Rightarrow> string option \<Rightarrow> error + AuthKeyLine" where
  "parse src_line def_opt =
     (let line = rstrip_chars [CHR 0x0D, CHR 0x0A] src_line in
      if startswith line ''#'' \<or> strip line = [] then Inr (mk_AuthKeyLine src_line None None None None)
      else
        (let ent = strip line;
             toks = split_None 3 ent
         in if length toks < 4 then Inr (form_components src_line toks def_opt)
            else (case extract_options ent of
                    Inl e \<Rightarrow> Inl e
                  | Inr (options_lst, toks') \<Rightarrow>
                      (let opts = (if options_lst \<noteq> [] then Some (join '','' options_lst) else def_opt)
                       in Inr (form_components src_line toks' opts)))))"

section \<open>\<^verbatim>\<open>update_authorized_keys\<close>\<close>

text \<open>
  \<^verbatim>\<open>update_authorized_keys(old_entries, keys)\<close> works on two Python lists of
  \<^verbatim>\<open>AuthKeyLine\<close> objects: it assigns to the items of \<open>old_entries\<close> and appends to
  it.  The class defines no \<^verbatim>\<open>__eq__\<close>, so \<^verbatim>\<open>k in to_add\<close> and
  \<^verbatim>\<open>to_add.remove(k)\<close> compare objects by identity.  The store therefore keeps the
  objects and the lists apart: a list holds references, \<open>objs\<close> gives the object of a
  reference and \<open>items\<close> the present items of a list object.
\<close>

type_synonym ref = nat
type_synonym lref = nat

record store =
  objs :: "ref \<Rightarrow> AuthKeyLine"
  items :: "lref \<Rightarrow> ref list"

text \<open>
  The inner loop \<^verbatim>\<open>for k in keys\<close> for one entry: \<open>ent\<close> becomes every matching key
  in turn, and each match is taken out of \<open>to_add\<close> when it is still there.
\<close>

fun scan_keys :: "(ref \<Rightarrow> AuthKeyLine) \<Rightarrow> ref list \<Rightarrow> ref \<Rightarrow> ref list \<Rightarrow> ref \<times> ref list" where
  "scan_keys h [] ent to_add = (ent, to_add)"
| "scan_keys h (k # ks) ent to_add =
     (if empty_entry (h k) \<or> \<not> truthy (base64 (h k)) then scan_keys h ks ent to_add
      else if base64 (h k) = base64 (h ent)
           then scan_keys h ks k (if k \<in> set to_add then remove1 k to_add else to_add)
      else scan_keys h ks ent to_add)"

text \<open>
  The outer loop \<^verbatim>\<open>for i in range(0, len(old_entries))\<close>; the range is computed
  once, before the loop.  Reading \<^verbatim>\<open>old_entries[i]\<close> outside the list would raise
  \<^verbatim>\<open>IndexError\<close>.
\<close>

fun replace_loop :: "store \<Rightarrow> lref \<Rightarrow> lref \<Rightarrow> nat list \<Rightarrow> ref list \<Rightarrow> error + (store \<times> ref list)" where
  "replace_loop s old_entries keys [] to_add = Inr (s, to_add)"
| "replace_loop s old_entries keys (i # idxs) to_add =
     (if i \<ge> length (items s old_entries) then Inl IndexError
      else
        (let ent = items s old_entries ! i in
         if empty_entry (objs s ent) \<or> \<not> truthy (base64 (objs s ent))
         then replace_loop s old_entries keys idxs to_add
         else
           (case scan_keys (objs s) (items s keys) ent to_add of
              (ent', to_add') \<Rightarrow>
                replace_loop
                  (s\<lparr>items := (items s)(old_entries := (items s old_entries)[i := ent'])\<rparr>)
                  old_entries keys idxs to_add')))"

text \<open>
  The whole function: the copy \<open>to_add\<close> of \<open>keys\<close>, the replacement loop, the append of
  what is left of \<open>to_add\<close>, and the text: the lines and a final empty string, joined by
  LF.  The result is the store after the call and the returned text.
\<close>

definition update_authorized_keys :: "store \<Rightarrow> lref \<Rightarrow> lref \<Rightarrow> error + (store \<times> string)" where
  "update_authorized_keys s old_entries keys =
     (let to_add = items s keys in
      case replace_loop s old_entries keys [0..<length (items s old_entries)] to_add of
        Inl e \<Rightarrow> Inl e
      | Inr (s1, to_add') \<Rightarrow>
          (let s2 = s1\<lparr>items := (items s1)(old_entries := items s1 old_entries @ to_add')\<rparr>;
               lines = map (\<lambda>b. str_AuthKeyLine (objs s2 b)) (items s2 old_entries) @ [[]]
           in Inr (s2, join [CHR 0x0A] lines)))"

section \<open>The \<^verbatim>\<open>sshd_config\<close> parser\<close>

text \<open>
  \<^verbatim>\<open>class SshdConfigLine\<close>; its attributes \<^verbatim>\<open>_key\<close> and \<^verbatim>\<open>value\<close> are the
  fields \<open>key_raw\<close> and \<open>val\<close>, and the property \<^verbatim>\<open>key\<close> is the function \<open>key\<close>.
\<close>

record SshdConfigLine =
  line :: string
  key_raw :: "string option"
  val :: "string option"

definition key :: "SshdConfigLine \<Rightarrow> string option" where
  "key l = (case key_raw l of None \<Rightarrow> None | Some k \<Rightarrow> Some (lower k))"

text \<open>
  The loop of \<^verbatim>\<open>parse_ssh_config\<close> over the lines of the file, \<open>acc\<close> being the list
  \<^verbatim>\<open>lines\<close> built so far.  The assignment \<^verbatim>\<open>(key, val) = line.split(None, 1)\<close>
  raises \<^verbatim>\<open>ValueError\<close> unless the split gives exactly two parts.
\<close>

fun parse_ssh_config_loop :: "SshdConfigLine list \<Rightarrow> string list \<Rightarrow> error + SshdConfigLine list" where
  "parse_ssh_config_loop acc [] = Inr acc"
| "parse_ssh_config_loop acc (l # ls) =
     (let ln = strip l in
      if ln = [] \<or> startswith ln ''#''
      then parse_ssh_config_loop (acc @ [\<lparr>line = ln, key_raw = None, val = None\<rparr>]) ls
      else
        (case split_None 1 ln of
           [k, v] \<Rightarrow> parse_ssh_config_loop (acc @ [\<lparr>line = ln, key_raw = Some k, val = Some v\<rparr>]) ls
         | _ \<Rightarrow> Inl ValueError))"

text \<open>
  \<^verbatim>\<open>parse_ssh_config(fname)\<close>.  The argument is what the file system gives for
  \<open>fname\<close>: \<open>None\<close> when it is not a regular file, the text \<^verbatim>\<open>util.load_file\<close>
  returns otherwise.
\<close>

definition parse_ssh_config :: "string option \<Rightarrow> error + SshdConfigLine list" where
  "parse_ssh_config file =
     (case file of
        None \<Rightarrow> Inr []
      | Some text \<Rightarrow> parse_ssh_config_loop [] (splitlines text))"

text \<open>\<^verbatim>\<open>parse_ssh_config_map(fname)\<close>: the dictionary from lower-case key to value.\<close>

fun parse_ssh_config_map_loop ::
  "(string \<rightharpoonup> string option) \<Rightarrow> SshdConfigLine list \<Rightarrow> (string \<rightharpoonup> string option)" where
  "parse_ssh_config_map_loop ret [] = ret"
| "parse_ssh_config_map_loop ret (l # ls) =
     (if \<not> truthy (key l) then parse_ssh_config_map_loop ret ls
      else parse_ssh_config_map_loop (ret(the (key l) \<mapsto> val l)) ls)"

definition parse_ssh_config_map :: "string option \<Rightarrow> error + (string \<rightharpoonup> string option)" where
  "parse_ssh_config_map file =
     (case parse_ssh_config file of
        Inl e \<Rightarrow> Inl e
      | Inr lines \<Rightarrow> if lines = [] then Inr Map.empty else Inr (parse_ssh_config_map_loop Map.empty lines))"

section \<open>The name of the key file\<close>

text \<open>
  The template and its three substitutions in \<^verbatim>\<open>extract_authorized_keys\<close>:
  \<open>cfg\<close> is \<^verbatim>\<open>ssh_cfg.get("authorizedkeysfile", '')\<close>, \<open>pw_dir\<close> the home directory
  of the user.
\<close>

definition auth_key_fn_template :: "string \<Rightarrow> string" where
  "auth_key_fn_template cfg =
     (let auth_key_fn = strip cfg in
      if auth_key_fn = [] then ''%h/.ssh/authorized_keys'' else auth_key_fn)"

definition auth_key_fn_replace :: "string \<Rightarrow> string \<Rightarrow> string \<Rightarrow> string" where
  "auth_key_fn_replace auth_key_fn pw_dir username =
     replace ''%%'' ''%'' (replace ''%u'' username (replace ''%h'' pw_dir auth_key_fn))"

section \<open>Notions used in the statements\<close>

text \<open>
  A text ends with exactly one newline: its last character is LF and the character
  before it, if there is one, is not.
\<close>

definition ends_with_one_newline :: "string \<Rightarrow> bool" where
  "ends_with_one_newline t =
     (t \<noteq> [] \<and> last t = CHR 0x0A \<and> (butlast t = [] \<or> last (butlast t) \<noteq> CHR 0x0A))"

text \<open>
  \<^verbatim>\<open>s.split(d)\<close> for a one-character separator: the pieces of \<open>s\<close> between all
  occurrences of \<open>d\<close>.  The statements about the csv reader compare its rows with it.
\<close>

fun split_char :: "char \<Rightarrow> string \<Rightarrow> string list" where
  "split_char d [] = [[]]"
| "split_char d (c # cs) =
     (if c = d then [] # split_char d cs
      else (case split_char d cs of
              [] \<Rightarrow> [[c]]
            | x # xs \<Rightarrow> (c # x) # xs))"

text \<open>
  The splitting of the options field as section 4.1 of the specification words it,
  for comparison with \<open>extract_options\<close>: the field is split at the commas outside
  quoted segments, where an unescaped \<^verbatim>\<open>"\<close> opens or closes a quoted segment and
  \<^verbatim>\<open>\"\<close> is one escaped unit; each piece is trimmed and the empty ones are dropped.
\<close>

fun spec_split_options :: "bool \<Rightarrow> string \<Rightarrow> string \<Rightarrow> string list" where
  "spec_split_options quoted cur [] = [cur]"
| "spec_split_options quoted cur [c] =
     (if c = CHR '','' \<and> \<not> quoted then [cur, []] else [cur @ [c]])"
| "spec_split_options quoted cur (c # d # cs) =
     (if c = CHR 0x5C \<and> d = CHR 0x22 then spec_split_options quoted (cur @ [c, d]) cs
      else if c = CHR 0x22 then spec_split_options (\<not> quoted) (cur @ [c]) (d # cs)
      else if c = CHR '','' \<and> \<not> quoted then cur # spec_split_options quoted [] (d # cs)
      else spec_split_options quoted (cur @ [c]) (d # cs))"

definition spec_options :: "string \<Rightarrow> string list" where
  "spec_options fld = filter (\<lambda>e. e \<noteq> []) (map strip (spec_split_options False [] fld))"

section \<open>Serialization of an entry\<close>

lemma truthy_simps [simp]: "truthy None = False" "truthy (Some s) = (s \<noteq> [])"
  by (simp_all add: truthy_def)

lemma empty_entry_no_base64: "empty_entry e \<Longrightarrow> \<not> truthy (base64 e)"
  by (simp add: empty_entry_def split: if_splits)

text \<open>
  C4, as stated, fails: an entry without \<open>base64\<close> is not always rendered as its raw
  line.  \<^verbatim>\<open>AuthKeyLine('src', options='opt')\<close> has no \<open>base64\<close>, and its text is
  \<^verbatim>\<open>opt\<close>, not \<^verbatim>\<open>src\<close>.
\<close>

theorem str_AuthKeyLine_no_base64_counterexample:
  "\<not> truthy (base64 (mk_AuthKeyLine ''src'' None None None (Some ''opt'')))
   \<and> str_AuthKeyLine (mk_AuthKeyLine ''src'' None None None (Some ''opt'')) = ''opt''
   \<and> str_AuthKeyLine (mk_AuthKeyLine ''src'' None None None (Some ''opt''))
       \<noteq> source (mk_AuthKeyLine ''src'' None None None (Some ''opt''))"
  by (simp add: mk_AuthKeyLine_def str_AuthKeyLine_def str_toks_def)

text \<open>
  C4, amended: an entry none of whose fields \<open>options\<close>, \<open>keytype\<close>, \<open>base64\<close>,
  \<open>comment\<close> is set (an empty entry) is rendered as its raw line \<open>source\<close>, verbatim.
  An entry without \<open>base64\<close> that has another field set is rendered as the set fields
  among \<open>options\<close>, \<open>keytype\<close>, \<open>comment\<close>, in this order, joined by one space.
\<close>

theorem str_AuthKeyLine_passthrough:
  "(empty_entry e \<longrightarrow> str_AuthKeyLine e = source e) \<and>
   (\<not> truthy (base64 e) \<and> \<not> empty_entry e \<longrightarrow>
      str_AuthKeyLine e =
        join '' '' ((if truthy (options e) then [the (options e)] else []) @
                    (if truthy (keytype e) then [the (keytype e)] else []) @
                    (if truthy (comment e) then [the (comment e)] else [])))"
  by (auto simp add: empty_entry_def str_AuthKeyLine_def str_toks_def Let_def)

text \<open>
  Both parts at concrete entries: a comment line with an empty \<open>comment\<close> field, and an
  entry with \<open>options\<close>, \<open>keytype\<close> and \<open>comment\<close> but no \<open>base64\<close>.
\<close>

theorem str_AuthKeyLine_passthrough_witness:
  "empty_entry (mk_AuthKeyLine ''# note'' None None (Some []) None)
   \<and> str_AuthKeyLine (mk_AuthKeyLine ''# note'' None None (Some []) None) = ''# note''
   \<and> \<not> truthy (base64 (mk_AuthKeyLine ''src'' (Some ''ssh-rsa'') None (Some ''me'') (Some ''opt'')))
   \<and> \<not> empty_entry (mk_AuthKeyLine ''src'' (Some ''ssh-rsa'') None (Some ''me'') (Some ''opt''))
   \<and> str_AuthKeyLine (mk_AuthKeyLine ''src'' (Some ''ssh-rsa'') None (Some ''me'') (Some ''opt''))
       = ''opt ssh-rsa me''"
  using str_AuthKeyLine_passthrough [of "mk_AuthKeyLine ''# note'' None None (Some []) None"]
    str_AuthKeyLine_passthrough [of "mk_AuthKeyLine ''src'' (Some ''ssh-rsa'') None (Some ''me'') (Some ''opt'')"]
  by (simp add: mk_AuthKeyLine_def empty_entry_def)

section \<open>The substitutions in the name of the key file\<close>

text \<open>
  C6: the three replacements are made in the order \<^verbatim>\<open>%h\<close>, \<^verbatim>\<open>%u\<close>,
  \<^verbatim>\<open>%%\<close> (definition \<open>auth_key_fn_replace\<close>), but on the template
  \<^verbatim>\<open>%%h/%u\<close> with home directory \<^verbatim>\<open>/h\<close> and user \<^verbatim>\<open>u\<close> they give
  \<^verbatim>\<open>%/h/u\<close>, not \<^verbatim>\<open>%h/u\<close>: the text \<^verbatim>\<open>%%h\<close> holds \<^verbatim>\<open>%h\<close> from its
  second character on, and the first replacement rewrites it.
\<close>

theorem auth_key_fn_replace_percent_percent_h:
  "auth_key_fn_replace (auth_key_fn_template ''%%h/%u'') ''/h'' ''u'' = ''%/h/u''
   \<and> auth_key_fn_replace (auth_key_fn_template ''%%h/%u'') ''/h'' ''u'' \<noteq> ''%h/u''"
  by (simp add: auth_key_fn_replace_def auth_key_fn_template_def strip_def isspace_def startswith_def)

section \<open>Reconciling the existing and the desired entries\<close>

text \<open>
  Removing, one \<^verbatim>\<open>remove\<close> at a time, the items of a list that satisfy \<open>P\<close> from what
  is left of that list takes out every item that satisfies \<open>P\<close>.
\<close>

lemma fold_remove1_filter:
  "\<forall>y\<in>set ys. \<not> P y \<Longrightarrow>
   fold remove1 (filter P xs) (ys @ filter Q xs) = ys @ filter (\<lambda>x. Q x \<and> \<not> P x) xs"
proof (induction xs arbitrary: ys)
  case Nil
  then show ?case by simp
next
  case (Cons x xs)
  show ?case
  proof (cases "P x")
    case True
    then have notin: "x \<notin> set ys" using Cons.prems by auto
    show ?thesis
    proof (cases "Q x")
      case q: True
      have "remove1 x (ys @ x # filter Q xs) = ys @ filter Q xs"
        using notin by (simp add: remove1_append)
      then show ?thesis using True q Cons.IH [OF Cons.prems] by simp
    next
      case q: False
      have "x \<notin> set (ys @ filter Q xs)" using notin q by simp
      then have "remove1 x (ys @ filter Q xs) = ys @ filter Q xs"
        by (rule remove1_idem)
      then show ?thesis using True q Cons.IH [OF Cons.prems] by simp
    qed
  next
    case False
    show ?thesis
    proof (cases "Q x")
      case q: True
      have "\<forall>y\<in>set (ys @ [x]). \<not> P y" using Cons.prems False by simp
      from Cons.IH [OF this] show ?thesis using False q by simp
    next
      case q: False
      then show ?thesis using False Cons.IH [OF Cons.prems] by simp
    qed
  qed
qed

text \<open>The inner loop: the entry becomes the last match, and every match leaves the pool.\<close>

lemma scan_keys_eq:
  "scan_keys h ks ent to_add =
     (last (ent # filter (\<lambda>k. truthy (base64 (h k)) \<and> base64 (h k) = base64 (h ent)) ks),
      fold remove1 (filter (\<lambda>k. truthy (base64 (h k)) \<and> base64 (h k) = base64 (h ent)) ks) to_add)"
proof (induction ks arbitrary: ent to_add)
  case Nil
  then show ?case by simp
next
  case (Cons k ks)
  show ?case
  proof (cases "truthy (base64 (h k))")
    case False
    then show ?thesis using Cons.IH by simp
  next
    case True
    then have ne: "\<not> empty_entry (h k)" using empty_entry_no_base64 by blast
    show ?thesis
    proof (cases "base64 (h k) = base64 (h ent)")
      case eq: True
      have r: "(if k \<in> set to_add then remove1 k to_add else to_add) = remove1 k to_add"
        by (simp add: remove1_idem)
      show ?thesis using True ne eq Cons.IH [of k "remove1 k to_add"] by (simp add: r)
    next
      case False
      then show ?thesis using True ne Cons.IH by simp
    qed
  qed
qed

lemma list_update_take_drop:
  assumes "m < length L"
  shows "(map R (take m L) @ drop m L)[m := R (L ! m)] = map R (take (Suc m) L) @ drop (Suc m) L"
proof -
  have d: "drop m L = L ! m # drop (Suc m) L"
    using assms by (simp add: Cons_nth_drop_Suc)
  have l: "length (map R (take m L)) = m" using assms by simp
  have "(map R (take m L) @ drop m L)[m := R (L ! m)]
        = map R (take m L) @ (drop m L)[0 := R (L ! m)]"
    using l by (simp add: list_update_append)
  also have "\<dots> = map R (take m L) @ R (L ! m) # drop (Suc m) L"
    by (simp add: d)
  also have "\<dots> = map R (take (Suc m) L) @ drop (Suc m) L"
    using assms by (simp add: take_Suc_conv_app_nth)
  finally show ?thesis .
qed

lemma fold_remove1_disjoint: "\<forall>x\<in>set xs. x \<notin> set ys \<Longrightarrow> fold remove1 xs ys = ys"
  by (induction xs) (simp_all add: remove1_idem)

lemma last_match_base64:
  "base64 (h (last (e # filter (\<lambda>k. truthy (base64 (h k)) \<and> base64 (h k) = base64 (h e)) K)))
     = base64 (h e)"
proof (cases "filter (\<lambda>k. truthy (base64 (h k)) \<and> base64 (h k) = base64 (h e)) K = []")
  case True
  then show ?thesis by simp
next
  case False
  then have "last (filter (\<lambda>k. truthy (base64 (h k)) \<and> base64 (h k) = base64 (h e)) K)
               \<in> set (filter (\<lambda>k. truthy (base64 (h k)) \<and> base64 (h k) = base64 (h e)) K)"
    by (rule last_in_set)
  then show ?thesis using False by simp
qed

text \<open>
  One scan over the live list \<open>keys\<close>.  When \<open>keys\<close> is the very list \<open>old_entries\<close>, its
  items before \<open>m\<close> have been replaced already; the scan then finds the same last match and
  leaves the same pool as a scan over the list as it was before the call.
\<close>

lemma scan_live_keys:
  assumes "R = (\<lambda>e. last (e # filter (\<lambda>k. truthy (base64 (h k)) \<and> base64 (h k) = base64 (h e)) L))"
    and "m < length L" and "truthy (base64 (h (L ! m)))"
    and "P = (\<lambda>k. truthy (base64 (h k)) \<and> base64 (h k) = base64 (h (L ! m)))"
    and "to_add = filter (\<lambda>k. \<not> (\<exists>e\<in>set (take m L). truthy (base64 (h k)) \<and> base64 (h k) = base64 (h e))) L"
  shows "last (L ! m # filter P (map R (take m L) @ drop m L)) = last (L ! m # filter P L)"
    and "fold remove1 (filter P (map R (take m L) @ drop m L)) to_add = fold remove1 (filter P L) to_add"
proof -
  have dm: "drop m L = L ! m # drop (Suc m) L"
    using assms(2) by (simp add: Cons_nth_drop_Suc)
  have Pe: "P (L ! m)" using assms(3) by (simp add: assms(4))
  have PR: "P (R p) = P p" for p
    using last_match_base64 [of h p L] by (simp add: assms(1) assms(4))
  have A': "filter P (map R (take m L)) = map R (filter P (take m L))"
    by (simp add: filter_map comp_def PR)
  have B: "filter P (drop m L) \<noteq> []" using dm Pe by simp
  have split: "filter P L = filter P (take m L) @ filter P (drop m L)"
    by (metis append_take_drop_id filter_append)
  show "last (L ! m # filter P (map R (take m L) @ drop m L)) = last (L ! m # filter P L)"
    using B by (simp add: split)
  show "fold remove1 (filter P (map R (take m L) @ drop m L)) to_add = fold remove1 (filter P L) to_add"
  proof (cases "\<exists>p\<in>set (take m L). P p")
    case True
    have none: "x \<notin> set to_add" if "P x" for x
    proof -
      from True obtain p where p: "p \<in> set (take m L)" "P p" by blast
      have "truthy (base64 (h x)) \<and> base64 (h x) = base64 (h p)"
        using that p(2) assms(3) by (simp add: assms(4))
      then have "\<exists>e\<in>set (take m L). truthy (base64 (h x)) \<and> base64 (h x) = base64 (h e)"
        using p(1) by blast
      then show ?thesis by (simp add: assms(5))
    qed
    have 1: "fold remove1 (filter P (map R (take m L) @ drop m L)) to_add = to_add"
      by (rule fold_remove1_disjoint) (use none in auto)
    have 2: "fold remove1 (filter P L) to_add = to_add"
      by (rule fold_remove1_disjoint) (use none in auto)
    show ?thesis by (simp only: 1 2)
  next
    case False
    then have "filter P (take m L) = []" by (simp add: filter_empty_conv)
    then show ?thesis by (simp add: A' split)
  qed
qed

text \<open>
  The outer loop from index \<open>m\<close> on, over the list \<open>L\<close> as it was before the call: \<open>R\<close> maps
  an entry to the last key with its \<open>base64\<close> (or to itself), and the pool loses the keys
  that match an entry seen so far.  \<open>K\<close> is the list \<open>keys\<close> before the call.
\<close>

lemma replace_loop_upt:
  assumes "objs s = h"
    and "if old = keys then K = L else items s keys = K"
    and "R = (\<lambda>e. last (e # filter (\<lambda>k. truthy (base64 (h k)) \<and> base64 (h k) = base64 (h e)) K))"
    and "m \<le> length L"
    and "items s old = map R (take m L) @ drop m L"
    and "to_add = filter (\<lambda>k. \<not> (\<exists>e\<in>set (take m L). truthy (base64 (h k)) \<and> base64 (h k) = base64 (h e))) K"
  shows "replace_loop s old keys [m..<length L] to_add =
           Inr (s\<lparr>items := (items s)(old := map R L)\<rparr>,
                filter (\<lambda>k. \<not> (\<exists>e\<in>set L. truthy (base64 (h k)) \<and> base64 (h k) = base64 (h e))) K)"
  using assms
proof (induction "length L - m" arbitrary: m s to_add)
  case 0
  then have m: "m = length L" by simp
  have e: "s\<lparr>items := (items s)(old := map R L)\<rparr> = s"
    using "0.prems"(5) m by (simp add: fun_upd_idem)
  have r: "replace_loop s old keys [m..<length L] to_add = Inr (s, to_add)"
    using m by simp
  have t: "to_add = filter (\<lambda>k. \<not> (\<exists>e\<in>set L. truthy (base64 (h k)) \<and> base64 (h k) = base64 (h e))) K"
    using "0.prems"(6) m by simp
  show ?case unfolding e r using t by simp
next
  case (Suc d)
  then have m: "m < length L" by simp
  let ?e = "L ! m"
  let ?P = "\<lambda>k. truthy (base64 (h k)) \<and> base64 (h k) = base64 (h ?e)"
  let ?Q = "\<lambda>k. \<not> (\<exists>e\<in>set (take m L). truthy (base64 (h k)) \<and> base64 (h k) = base64 (h e))"
  let ?M = "filter ?P K"
  have upt: "[m..<length L] = m # [Suc m..<length L]"
    using m by (simp add: upt_conv_Cons)
  have len: "m < length (items s old)" using Suc.prems(5) m by simp
  have ent: "items s old ! m = ?e" using Suc.prems(5) m by (simp add: nth_append)
  have tk: "take (Suc m) L = take m L @ [?e]"
    using m by (simp add: take_Suc_conv_app_nth)
  have Re: "R ?e = last (?e # ?M)" using Suc.prems(3) by simp
  have d: "d = length L - Suc m" using Suc.hyps(2) by simp
  show ?case
  proof (cases "truthy (base64 (h ?e))")
    case False
    then have M: "?M = []" by (auto simp add: filter_empty_conv)
    have l1: "items s old = map R (take (Suc m) L) @ drop (Suc m) L"
    proof -
      have "R ?e = items s old ! m" using ent Re M by simp
      then have "items s old = (items s old)[m := R ?e]"
        by (simp only: list_update_id)
      then show ?thesis
        using list_update_take_drop [OF m, of R] Suc.prems(5) by simp
    qed
    have t1: "to_add = filter (\<lambda>k. \<not> (\<exists>e\<in>set (take (Suc m) L). truthy (base64 (h k)) \<and> base64 (h k) = base64 (h e))) K"
      unfolding Suc.prems(6) tk using False by (intro filter_cong) auto
    have step: "replace_loop s old keys [m..<length L] to_add
                = replace_loop s old keys [Suc m..<length L] to_add"
      unfolding upt using len ent False Suc.prems(1) by (simp add: Let_def)
    have "Suc m \<le> length L" using m by simp
    from Suc.hyps(1) [OF d Suc.prems(1) Suc.prems(2) Suc.prems(3) this l1 t1]
    show ?thesis using step by simp
  next
    case True
    then have ne: "\<not> empty_entry (h ?e)" using empty_entry_no_base64 by blast
    let ?ta = "fold remove1 ?M to_add"
    let ?s1 = "s\<lparr>items := (items s)(old := (items s old)[m := R ?e])\<rparr>"
    have live: "last (?e # filter ?P (items s keys)) = last (?e # ?M)
                \<and> fold remove1 (filter ?P (items s keys)) to_add = ?ta"
    proof (cases "old = keys")
      case False
      then show ?thesis using Suc.prems(2) by simp
    next
      case same: True
      then have K: "K = L" and ks: "items s keys = map R (take m L) @ drop m L"
        using Suc.prems(2) Suc.prems(5) by simp_all
      have R': "R = (\<lambda>e. last (e # filter (\<lambda>k. truthy (base64 (h k)) \<and> base64 (h k) = base64 (h e)) L))"
        using Suc.prems(3) K by simp
      have ta': "to_add = filter ?Q L" using Suc.prems(6) K by simp
      from scan_live_keys [OF R' m True refl ta']
      show ?thesis unfolding ks K by simp
    qed
    have sk: "scan_keys (objs s) (items s keys) (items s old ! m) to_add = (R ?e, ?ta)"
      unfolding ent Suc.prems(1) Re using scan_keys_eq [of h "items s keys" ?e to_add] live by simp
    have step: "replace_loop s old keys [m..<length L] to_add
                = replace_loop ?s1 old keys [Suc m..<length L] ?ta"
      unfolding upt using len True ne sk ent Suc.prems(1) by (simp add: Let_def)
    have o1: "objs ?s1 = h" using Suc.prems(1) by simp
    have k1: "if old = keys then K = L else items ?s1 keys = K" using Suc.prems(2) by simp
    have l1: "items ?s1 old = map R (take (Suc m) L) @ drop (Suc m) L"
      using list_update_take_drop [OF m, of R] Suc.prems(5) by simp
    have "fold remove1 (filter ?P K) ([] @ filter ?Q K) = [] @ filter (\<lambda>k. ?Q k \<and> \<not> ?P k) K"
      by (rule fold_remove1_filter) simp
    then have "?ta = filter (\<lambda>k. ?Q k \<and> \<not> ?P k) K"
      unfolding Suc.prems(6) by (simp only: append_Nil)
    also have "\<dots> = filter (\<lambda>k. \<not> (\<exists>e\<in>set (take (Suc m) L). truthy (base64 (h k)) \<and> base64 (h k) = base64 (h e))) K"
      unfolding tk by (rule filter_cong) auto
    finally have t1: "?ta = filter (\<lambda>k. \<not> (\<exists>e\<in>set (take (Suc m) L). truthy (base64 (h k)) \<and> base64 (h k) = base64 (h e))) K" .
    have "Suc m \<le> length L" using m by simp
    from Suc.hyps(1) [OF d o1 k1 Suc.prems(3) this l1 t1]
    show ?thesis using step by simp
  qed
qed

text \<open>
  The whole call, for any two lists (also when both parameters are the same list
  object): the store afterwards and the returned text.
\<close>

lemma update_authorized_keys_eq:
  assumes "R = (\<lambda>e. last (e # filter (\<lambda>k. truthy (base64 (objs s k)) \<and> base64 (objs s k) = base64 (objs s e)) (items s keys)))"
    and "N = (\<lambda>k. \<not> (\<exists>e\<in>set (items s old). truthy (base64 (objs s k)) \<and> base64 (objs s k) = base64 (objs s e)))"
    and "new = map R (items s old) @ filter N (items s keys)"
  shows "update_authorized_keys s old keys =
           Inr (s\<lparr>items := (items s)(old := new)\<rparr>,
                join [CHR 0x0A] (map (\<lambda>b. str_AuthKeyLine (objs s b)) new @ [[]]))"
proof -
  have al: "if old = keys then items s keys = items s old else items s keys = items s keys"
    by simp
  have "replace_loop s old keys [0..<length (items s old)] (items s keys) =
          Inr (s\<lparr>items := (items s)(old := map R (items s old))\<rparr>, filter N (items s keys))"
    unfolding assms(2)
    by (rule replace_loop_upt [OF refl al assms(1)]) simp_all
  then show ?thesis
    by (simp add: update_authorized_keys_def Let_def assms(3))
qed

lemma update_authorized_keys_frame:
  "\<exists>s' out. update_authorized_keys s old keys = Inr (s', out) \<and> objs s' = objs s
     \<and> (\<forall>l. l \<noteq> old \<longrightarrow> items s' l = items s l)
     \<and> length (items s old) \<le> length (items s' old)
     \<and> out = join [CHR 0x0A] (map (\<lambda>b. str_AuthKeyLine (objs s' b)) (items s' old) @ [[]])"
  using update_authorized_keys_eq [OF refl refl refl, of s old keys] by simp

lemma join_snoc_empty: "xs \<noteq> [] \<Longrightarrow> join sep (xs @ [[]]) = join sep xs @ sep"
  by (induction sep xs rule: join.induct) auto

text \<open>
  C1, as stated, fails.  With \<open>old_entries = [A]\<close> and \<open>keys = [C, D]\<close>, all three with
  the same \<open>base64\<close>, the list becomes \<open>[D]\<close> and not \<open>[D, C]\<close>: \<open>C\<close> matches first
  and is taken out of \<open>to_add\<close>, then \<open>D\<close> matches and is taken out as well.  (The
  references 0, 1, 2 are \<open>A\<close>, \<open>C\<close>, \<open>D\<close>; list 0 is \<open>old_entries\<close>, list 1 is \<open>keys\<close>.)
\<close>

theorem update_authorized_keys_pool_counterexample:
  "update_authorized_keys
     \<lparr>objs = (\<lambda>r. mk_AuthKeyLine [] None None None None)
        (0 := mk_AuthKeyLine ''ssh-rsa X a'' (Some ''ssh-rsa'') (Some ''X'') (Some ''a'') None,
         1 := mk_AuthKeyLine ''ssh-rsa X c'' (Some ''ssh-rsa'') (Some ''X'') (Some ''c'') None,
         2 := mk_AuthKeyLine ''ssh-rsa X d'' (Some ''ssh-rsa'') (Some ''X'') (Some ''d'') None),
      items = (\<lambda>l. [])(0 := [0], 1 := [1, 2])\<rparr> 0 1
   = Inr (\<lparr>objs = (\<lambda>r. mk_AuthKeyLine [] None None None None)
        (0 := mk_AuthKeyLine ''ssh-rsa X a'' (Some ''ssh-rsa'') (Some ''X'') (Some ''a'') None,
         1 := mk_AuthKeyLine ''ssh-rsa X c'' (Some ''ssh-rsa'') (Some ''X'') (Some ''c'') None,
         2 := mk_AuthKeyLine ''ssh-rsa X d'' (Some ''ssh-rsa'') (Some ''X'') (Some ''d'') None),
      items = (\<lambda>l. [])(0 := [2], 1 := [1, 2])\<rparr>, ''ssh-rsa X d'' @ [CHR 0x0A])
   \<and> [2] \<noteq> [2, 1 :: ref]"
  by (simp add: update_authorized_keys_def Let_def mk_AuthKeyLine_def empty_entry_def
      str_AuthKeyLine_def str_toks_def fun_eq_iff)

text \<open>
  C1, amended: every desired entry that matches an existing entry (same non-empty
  \<open>base64\<close>) is removed from the pool of entries pending append, the last match and the
  earlier ones alike.  What is appended after the reconciled existing list is exactly
  the desired entries whose \<open>base64\<close> is empty or equals that of no existing entry, in
  their original order; in the example the result is \<open>[D]\<close>.
\<close>

theorem update_authorized_keys_pool:
  "\<exists>s' out. update_authorized_keys s old keys = Inr (s', out) \<and>
           drop (length (items s old)) (items s' old) =
             filter (\<lambda>k. \<not> (\<exists>e\<in>set (items s old).
                              truthy (base64 (objs s k)) \<and> base64 (objs s k) = base64 (objs s e)))
               (items s keys)"
  using update_authorized_keys_eq [OF refl refl refl, of s old keys] by simp

text \<open>
  Existing \<open>[A]\<close> and desired \<open>[C, E, D]\<close>, where \<open>C\<close> and \<open>D\<close> have the \<open>base64\<close> of
  \<open>A\<close> and \<open>E\<close> has another: only \<open>E\<close> (reference 2) is appended.
\<close>

theorem update_authorized_keys_pool_witness:
  "\<exists>s' out. update_authorized_keys
     \<lparr>objs = (\<lambda>r. mk_AuthKeyLine [] None None None None)
        (0 := mk_AuthKeyLine ''ssh-rsa X a'' (Some ''ssh-rsa'') (Some ''X'') (Some ''a'') None,
         1 := mk_AuthKeyLine ''ssh-rsa X c'' (Some ''ssh-rsa'') (Some ''X'') (Some ''c'') None,
         2 := mk_AuthKeyLine ''ssh-rsa Y e'' (Some ''ssh-rsa'') (Some ''Y'') (Some ''e'') None,
         3 := mk_AuthKeyLine ''ssh-rsa X d'' (Some ''ssh-rsa'') (Some ''X'') (Some ''d'') None),
      items = (\<lambda>l. [])(0 := [0], 1 := [1, 2, 3])\<rparr> 0 1 = Inr (s', out)
     \<and> drop 1 (items s' 0) = [2]"
  using update_authorized_keys_pool [of
     "\<lparr>objs = (\<lambda>r. mk_AuthKeyLine [] None None None None)
        (0 := mk_AuthKeyLine ''ssh-rsa X a'' (Some ''ssh-rsa'') (Some ''X'') (Some ''a'') None,
         1 := mk_AuthKeyLine ''ssh-rsa X c'' (Some ''ssh-rsa'') (Some ''X'') (Some ''c'') None,
         2 := mk_AuthKeyLine ''ssh-rsa Y e'' (Some ''ssh-rsa'') (Some ''Y'') (Some ''e'') None,
         3 := mk_AuthKeyLine ''ssh-rsa X d'' (Some ''ssh-rsa'') (Some ''X'') (Some ''d'') None),
      items = (\<lambda>l. [])(0 := [0], 1 := [1, 2, 3])\<rparr>" 0 1]
  by (simp add: mk_AuthKeyLine_def)

text \<open>
  C2: the call returns and the list keeps its entries' positions; every existing entry
  with a non-empty \<open>base64\<close> that has \<open>base64\<close>-equal entries in \<open>keys\<close> is replaced by
  the last of them, and every existing entry without \<open>base64\<close> stays as it is, in place.
\<close>

theorem update_authorized_keys_last_match:
  "\<exists>s' out. update_authorized_keys s old keys = Inr (s', out) \<and>
           length (items s old) \<le> length (items s' old) \<and>
           (\<forall>i < length (items s old).
              (truthy (base64 (objs s (items s old ! i))) \<and>
               filter (\<lambda>k. base64 (objs s k) = base64 (objs s (items s old ! i))) (items s keys) \<noteq> []
               \<longrightarrow> items s' old ! i =
                     last (filter (\<lambda>k. base64 (objs s k) = base64 (objs s (items s old ! i))) (items s keys)))
              \<and> (\<not> truthy (base64 (objs s (items s old ! i))) \<longrightarrow> items s' old ! i = items s old ! i))"
proof -
  let ?R = "\<lambda>e. last (e # filter (\<lambda>k. truthy (base64 (objs s k)) \<and> base64 (objs s k) = base64 (objs s e)) (items s keys))"
  let ?N = "\<lambda>k. \<not> (\<exists>e\<in>set (items s old). truthy (base64 (objs s k)) \<and> base64 (objs s k) = base64 (objs s e))"
  let ?new = "map ?R (items s old) @ filter ?N (items s keys)"
  let ?s' = "s\<lparr>items := (items s)(old := ?new)\<rparr>"
  have u: "update_authorized_keys s old keys =
             Inr (?s', join [CHR 0x0A] (map (\<lambda>b. str_AuthKeyLine (objs s b)) ?new @ [[]]))"
    by (rule update_authorized_keys_eq [OF refl refl refl])
  have n: "items ?s' old ! i = ?R (items s old ! i)" if "i < length (items s old)" for i
    using that by (simp add: nth_append)
  have a: "?R e = last (filter (\<lambda>k. base64 (objs s k) = base64 (objs s e)) (items s keys))"
    if "truthy (base64 (objs s e))"
       "filter (\<lambda>k. base64 (objs s k) = base64 (objs s e)) (items s keys) \<noteq> []" for e
  proof -
    have "filter (\<lambda>k. truthy (base64 (objs s k)) \<and> base64 (objs s k) = base64 (objs s e)) (items s keys)
          = filter (\<lambda>k. base64 (objs s k) = base64 (objs s e)) (items s keys)"
      using that(1) by (intro filter_cong) auto
    then show ?thesis using that(2) by simp
  qed
  have b: "?R e = e" if "\<not> truthy (base64 (objs s e))" for e
  proof -
    have "filter (\<lambda>k. truthy (base64 (objs s k)) \<and> base64 (objs s k) = base64 (objs s e)) (items s keys) = []"
      using that by (auto simp add: filter_empty_conv)
    then show ?thesis by simp
  qed
  have "length (items s old) \<le> length (items ?s' old)" by simp
  then show ?thesis using u n a b by (intro exI conjI allI impI) (assumption | simp)+
qed

text \<open>
  Existing: a comment line (reference 0) and a key \<open>A\<close> (reference 1); desired
  \<open>[C, E, D]\<close> where \<open>C\<close> and \<open>D\<close> have the \<open>base64\<close> of \<open>A\<close>.  The comment stays and
  \<open>A\<close> is replaced by \<open>D\<close> (reference 4).
\<close>

theorem update_authorized_keys_last_match_witness:
  "(\<exists>s' out. update_authorized_keys
     \<lparr>objs = (\<lambda>r. mk_AuthKeyLine [] None None None None)
        (0 := mk_AuthKeyLine ''# keys'' None None None None,
         1 := mk_AuthKeyLine ''ssh-rsa X a'' (Some ''ssh-rsa'') (Some ''X'') (Some ''a'') None,
         2 := mk_AuthKeyLine ''ssh-rsa X c'' (Some ''ssh-rsa'') (Some ''X'') (Some ''c'') None,
         3 := mk_AuthKeyLine ''ssh-rsa Y e'' (Some ''ssh-rsa'') (Some ''Y'') (Some ''e'') None,
         4 := mk_AuthKeyLine ''ssh-rsa X d'' (Some ''ssh-rsa'') (Some ''X'') (Some ''d'') None),
      items = (\<lambda>l. [])(0 := [0, 1], 1 := [2, 3, 4])\<rparr> 0 1 = Inr (s', out)
     \<and> items s' 0 ! 0 = 0 \<and> items s' 0 ! 1 = 4)"
proof -
  let ?s = "\<lparr>objs = (\<lambda>r. mk_AuthKeyLine [] None None None None)
        (0 := mk_AuthKeyLine ''# keys'' None None None None,
         1 := mk_AuthKeyLine ''ssh-rsa X a'' (Some ''ssh-rsa'') (Some ''X'') (Some ''a'') None,
         2 := mk_AuthKeyLine ''ssh-rsa X c'' (Some ''ssh-rsa'') (Some ''X'') (Some ''c'') None,
         3 := mk_AuthKeyLine ''ssh-rsa Y e'' (Some ''ssh-rsa'') (Some ''Y'') (Some ''e'') None,
         4 := mk_AuthKeyLine ''ssh-rsa X d'' (Some ''ssh-rsa'') (Some ''X'') (Some ''d'') None),
      items = (\<lambda>l. [])(0 := [0, 1], 1 := [2, 3, 4 :: ref])\<rparr>"
  from update_authorized_keys_last_match [of ?s 0 1] obtain s' out where
    u: "update_authorized_keys ?s 0 1 = Inr (s', out)"
    and a: "\<forall>i < length (items ?s 0).
              (truthy (base64 (objs ?s (items ?s 0 ! i))) \<and>
               filter (\<lambda>k. base64 (objs ?s k) = base64 (objs ?s (items ?s 0 ! i))) (items ?s 1) \<noteq> []
               \<longrightarrow> items s' 0 ! i =
                     last (filter (\<lambda>k. base64 (objs ?s k) = base64 (objs ?s (items ?s 0 ! i))) (items ?s 1)))
              \<and> (\<not> truthy (base64 (objs ?s (items ?s 0 ! i))) \<longrightarrow> items s' 0 ! i = items ?s 0 ! i)"
    by blast
  from a [rule_format, of 0] have "items s' 0 ! 0 = 0" by (simp add: mk_AuthKeyLine_def)
  moreover from a [rule_format, of 1] have "items s' 0 ! 1 = 4" by (simp add: mk_AuthKeyLine_def)
  ultimately show ?thesis using u by blast
qed

text \<open>
  C7, as stated, fails: the call changes the list \<open>old_entries\<close> it is given.  With
  \<open>old_entries = [A]\<close> and \<open>keys = [D]\<close> of different \<open>base64\<close>, the list object
  \<open>old_entries\<close> (list 0) holds \<open>[A, D]\<close> after the call.
\<close>

theorem update_authorized_keys_mutates_counterexample:
  "update_authorized_keys
     \<lparr>objs = (\<lambda>r. mk_AuthKeyLine [] None None None None)
        (0 := mk_AuthKeyLine ''ssh-rsa X1 a'' (Some ''ssh-rsa'') (Some ''X1'') (Some ''a'') None,
         1 := mk_AuthKeyLine ''ssh-rsa X3 d'' (Some ''ssh-rsa'') (Some ''X3'') (Some ''d'') None),
      items = (\<lambda>l. [])(0 := [0], 1 := [1])\<rparr> 0 1
   = Inr (\<lparr>objs = (\<lambda>r. mk_AuthKeyLine [] None None None None)
        (0 := mk_AuthKeyLine ''ssh-rsa X1 a'' (Some ''ssh-rsa'') (Some ''X1'') (Some ''a'') None,
         1 := mk_AuthKeyLine ''ssh-rsa X3 d'' (Some ''ssh-rsa'') (Some ''X3'') (Some ''d'') None),
      items = (\<lambda>l. [])(0 := [0, 1], 1 := [1])\<rparr>,
      ''ssh-rsa X1 a'' @ [CHR 0x0A] @ ''ssh-rsa X3 d'' @ [CHR 0x0A])
   \<and> ((\<lambda>l. [])(0 := [0, 1], 1 := [1 :: ref])) (0 :: lref) \<noteq> ((\<lambda>l. [])(0 := [0], 1 := [1])) 0"
  by (simp add: update_authorized_keys_def Let_def mk_AuthKeyLine_def empty_entry_def
      str_AuthKeyLine_def str_toks_def fun_eq_iff)

text \<open>
  C7, amended: the call always returns; it changes no \<open>AuthKeyLine\<close> object and no list
  other than \<open>old_entries\<close> (so not the list \<open>keys\<close>, when that is another list
  object).  The list \<open>old_entries\<close> itself is updated in place: after the call it holds
  the reconciled entries, every existing entry replaced by the last key of its \<open>base64\<close>
  when there is one, followed by the keys that matched no existing entry; the returned
  text is made of these entries.
\<close>

theorem update_authorized_keys_frame_only:
  "\<exists>s' out. update_authorized_keys s old_entries keys = Inr (s', out) \<and> objs s' = objs s
     \<and> (\<forall>l. l \<noteq> old_entries \<longrightarrow> items s' l = items s l)
     \<and> items s' old_entries =
           map (\<lambda>e. last (e # filter (\<lambda>k. truthy (base64 (objs s k))
                                            \<and> base64 (objs s k) = base64 (objs s e)) (items s keys)))
             (items s old_entries)
           @ filter (\<lambda>k. \<not> (\<exists>e\<in>set (items s old_entries).
                              truthy (base64 (objs s k)) \<and> base64 (objs s k) = base64 (objs s e)))
               (items s keys)
     \<and> out = join [CHR 0x0A] (map (\<lambda>b. str_AuthKeyLine (objs s b)) (items s' old_entries) @ [[]])"
  using update_authorized_keys_eq [OF refl refl refl, of s old_entries keys] by simp

text \<open>
  Existing \<open>[A]\<close> and desired \<open>[D]\<close> with the \<open>base64\<close> of \<open>A\<close>: both objects and the
  list \<open>keys\<close> (list 1) are as before.
\<close>

theorem update_authorized_keys_frame_only_witness:
  "\<exists>s' out. update_authorized_keys
     \<lparr>objs = (\<lambda>r. mk_AuthKeyLine [] None None None None)
        (0 := mk_AuthKeyLine ''ssh-rsa X1 a'' (Some ''ssh-rsa'') (Some ''X1'') (Some ''a'') None,
         1 := mk_AuthKeyLine ''ssh-rsa X1 d'' (Some ''ssh-rsa'') (Some ''X1'') (Some ''d'') None),
      items = (\<lambda>l. [])(0 := [0], 1 := [1])\<rparr> 0 1 = Inr (s', out)
     \<and> objs s' 0 = mk_AuthKeyLine ''ssh-rsa X1 a'' (Some ''ssh-rsa'') (Some ''X1'') (Some ''a'') None
     \<and> objs s' 1 = mk_AuthKeyLine ''ssh-rsa X1 d'' (Some ''ssh-rsa'') (Some ''X1'') (Some ''d'') None
     \<and> items s' 1 = [1]"
proof -
  let ?s = "\<lparr>objs = (\<lambda>r. mk_AuthKeyLine [] None None None None)
        (0 := mk_AuthKeyLine ''ssh-rsa X1 a'' (Some ''ssh-rsa'') (Some ''X1'') (Some ''a'') None,
         1 := mk_AuthKeyLine ''ssh-rsa X1 d'' (Some ''ssh-rsa'') (Some ''X1'') (Some ''d'') None),
      items = (\<lambda>l. [])(0 := [0], 1 := [1 :: ref])\<rparr>"
  from update_authorized_keys_frame_only [of ?s 0 1] obtain s' out where
    u: "update_authorized_keys ?s 0 1 = Inr (s', out)" "objs s' = objs ?s"
       "\<forall>l. l \<noteq> 0 \<longrightarrow> items s' l = items ?s l"
    by blast
  from u(3) have "items s' 1 = [1]" by simp
  then show ?thesis using u(1) u(2) by simp
qed

lemma join_last:
  "xs \<noteq> [] \<Longrightarrow> last xs \<noteq> [] \<Longrightarrow> join sep xs \<noteq> [] \<and> last (join sep xs) = last (last xs)"
  by (induction sep xs rule: join.induct) auto

text \<open>
  C8, as stated, fails.  When the last entry is a blank line (an empty entry with an
  empty \<open>source\<close>, as a blank last line of the file is parsed), the text ends with two
  newline characters.
\<close>

theorem update_authorized_keys_two_newlines_counterexample:
  "update_authorized_keys
     \<lparr>objs = (\<lambda>r. mk_AuthKeyLine [] None None None None)
        (0 := mk_AuthKeyLine ''ssh-rsa X1 a'' (Some ''ssh-rsa'') (Some ''X1'') (Some ''a'') None,
         1 := mk_AuthKeyLine [] None None None None),
      items = (\<lambda>l. [])(0 := [0, 1], 1 := [])\<rparr> 0 1
   = Inr (\<lparr>objs = (\<lambda>r. mk_AuthKeyLine [] None None None None)
        (0 := mk_AuthKeyLine ''ssh-rsa X1 a'' (Some ''ssh-rsa'') (Some ''X1'') (Some ''a'') None,
         1 := mk_AuthKeyLine [] None None None None),
      items = (\<lambda>l. [])(0 := [0, 1], 1 := [])\<rparr>,
      ''ssh-rsa X1 a'' @ [CHR 0x0A, CHR 0x0A])
   \<and> \<not> ends_with_one_newline (''ssh-rsa X1 a'' @ [CHR 0x0A, CHR 0x0A])"
  by (simp add: update_authorized_keys_def Let_def mk_AuthKeyLine_def empty_entry_def
      str_AuthKeyLine_def str_toks_def fun_eq_iff ends_with_one_newline_def)

text \<open>
  With no entry at all the text is empty; it does not end with a newline although the
  function means to ensure one (\<^verbatim>\<open># Ensure it ends with a newline\<close>).
\<close>

lemma update_authorized_keys_no_entries:
  "update_authorized_keys \<lparr>objs = h, items = (\<lambda>l. [])\<rparr> 0 1
     = Inr (\<lparr>objs = h, items = (\<lambda>l. [])\<rparr>, [])"
  by (simp add: update_authorized_keys_def Let_def fun_eq_iff)

text \<open>
  C8, amended: whenever the existing and the desired list are not both empty, the
  reconciled list is not empty and the text is its rendered lines, joined with a single
  LF between consecutive entries and followed by one more LF.  The text then ends with
  exactly one newline character provided the last rendered line is not empty and does not
  itself end with a newline.
\<close>

theorem update_authorized_keys_text:
  "\<exists>s' out. update_authorized_keys s old_entries keys = Inr (s', out) \<and>
     (items s old_entries \<noteq> [] \<or> items s keys \<noteq> [] \<longrightarrow> items s' old_entries \<noteq> []) \<and>
     (items s' old_entries \<noteq> [] \<longrightarrow>
        out = join [CHR 0x0A] (map (\<lambda>b. str_AuthKeyLine (objs s b)) (items s' old_entries)) @ [CHR 0x0A]
        \<and> (str_AuthKeyLine (objs s (last (items s' old_entries))) \<noteq> []
            \<and> last (str_AuthKeyLine (objs s (last (items s' old_entries)))) \<noteq> CHR 0x0A
            \<longrightarrow> ends_with_one_newline out))"
proof -
  from update_authorized_keys_frame [of s old_entries keys] obtain s' out where
    u: "update_authorized_keys s old_entries keys = Inr (s', out)" "objs s' = objs s"
       "length (items s old_entries) \<le> length (items s' old_entries)"
       "out = join [CHR 0x0A] (map (\<lambda>b. str_AuthKeyLine (objs s' b)) (items s' old_entries) @ [[]])"
    by blast
  let ?ls = "map (\<lambda>b. str_AuthKeyLine (objs s b)) (items s' old_entries)"
  have ne: "items s' old_entries \<noteq> []" if "items s old_entries \<noteq> [] \<or> items s keys \<noteq> []"
    using that u(1) update_authorized_keys_eq [OF refl refl refl, of s old_entries keys] by auto
  have t: "out = join [CHR 0x0A] ?ls @ [CHR 0x0A]" if "items s' old_entries \<noteq> []"
    using that u(2) u(4) join_snoc_empty [of ?ls "[CHR 0x0A]"] by simp
  have e: "ends_with_one_newline out"
    if "items s' old_entries \<noteq> []" "str_AuthKeyLine (objs s (last (items s' old_entries))) \<noteq> []"
       "last (str_AuthKeyLine (objs s (last (items s' old_entries)))) \<noteq> CHR 0x0A"
  proof -
    have l: "last ?ls = str_AuthKeyLine (objs s (last (items s' old_entries)))"
      using that(1) by (simp add: last_map)
    have "?ls \<noteq> []" using that(1) by simp
    from join_last [OF this, of "[CHR 0x0A]"] l that(2)
    have "join [CHR 0x0A] ?ls \<noteq> [] \<and> last (join [CHR 0x0A] ?ls) = last (last ?ls)" by simp
    then show ?thesis using t [OF that(1)] l that(3) by (simp add: ends_with_one_newline_def)
  qed
  show ?thesis using u(1) ne t e by blast
qed

text \<open>A comment line as the only existing entry and one desired key.\<close>

theorem update_authorized_keys_text_witness:
  "\<exists>s' out. update_authorized_keys
     \<lparr>objs = (\<lambda>r. mk_AuthKeyLine [] None None None None)
        (0 := mk_AuthKeyLine ''# keys'' None None None None,
         1 := mk_AuthKeyLine ''ssh-rsa X3 d'' (Some ''ssh-rsa'') (Some ''X3'') (Some ''d'') None),
      items = (\<lambda>l. [])(0 := [0], 1 := [1])\<rparr> 0 1 = Inr (s', out)
     \<and> items s' 0 = [0, 1]
     \<and> out = ''# keys'' @ [CHR 0x0A] @ ''ssh-rsa X3 d'' @ [CHR 0x0A]
     \<and> ends_with_one_newline out"
proof -
  let ?s = "\<lparr>objs = (\<lambda>r. mk_AuthKeyLine [] None None None None)
        (0 := mk_AuthKeyLine ''# keys'' None None None None,
         1 := mk_AuthKeyLine ''ssh-rsa X3 d'' (Some ''ssh-rsa'') (Some ''X3'') (Some ''d'') None),
      items = (\<lambda>l. [])(0 := [0], 1 := [1 :: ref])\<rparr>"
  have v: "update_authorized_keys ?s 0 1 =
             Inr (?s\<lparr>items := (\<lambda>l. [])(0 := [0, 1], 1 := [1])\<rparr>,
                  ''# keys'' @ [CHR 0x0A] @ ''ssh-rsa X3 d'' @ [CHR 0x0A])"
    by (simp add: update_authorized_keys_def Let_def mk_AuthKeyLine_def empty_entry_def
        str_AuthKeyLine_def str_toks_def fun_eq_iff)
  from update_authorized_keys_text [of ?s 0 1] obtain s' out where
    u: "update_authorized_keys ?s 0 1 = Inr (s', out)"
    and w: "items s' 0 \<noteq> [] \<longrightarrow>
        out = join [CHR 0x0A] (map (\<lambda>b. str_AuthKeyLine (objs ?s b)) (items s' 0)) @ [CHR 0x0A]
        \<and> (str_AuthKeyLine (objs ?s (last (items s' 0))) \<noteq> []
            \<and> last (str_AuthKeyLine (objs ?s (last (items s' 0)))) \<noteq> CHR 0x0A
            \<longrightarrow> ends_with_one_newline out)"
    by blast
  from u v have s': "items s' 0 = [0, 1]" and t: "out = ''# keys'' @ [CHR 0x0A] @ ''ssh-rsa X3 d'' @ [CHR 0x0A]"
    by auto
  from w s' have "ends_with_one_newline out"
    by (auto simp add: mk_AuthKeyLine_def str_AuthKeyLine_def str_toks_def)
  then show ?thesis using u s' t by blast
qed

section \<open>Strictness of the \<^verbatim>\<open>sshd_config\<close> parser\<close>

lemma last_dropWhile: "dropWhile P xs \<noteq> [] \<Longrightarrow> last (dropWhile P xs) = last xs"
  by (induction xs) (auto split: if_splits)

lemma strip_hd: "strip s \<noteq> [] \<Longrightarrow> \<not> isspace (hd (strip s))"
proof -
  assume a: "strip s \<noteq> []"
  let ?t = "dropWhile isspace s"
  have d: "dropWhile isspace (rev ?t) \<noteq> []" using a by (simp add: strip_def)
  have t: "?t \<noteq> []"
  proof
    assume e: "?t = []"
    have "dropWhile isspace (rev ?t) = []" unfolding e by simp
    then show False using d by blast
  qed
  have "hd (strip s) = last (dropWhile isspace (rev ?t))"
    using d by (simp add: strip_def hd_rev)
  also have "\<dots> = last (rev ?t)" using d by (simp add: last_dropWhile)
  also have "\<dots> = hd ?t" using t by (simp add: last_rev)
  finally show ?thesis using t hd_dropWhile [of isspace s] by simp
qed

lemma strip_last: "strip s \<noteq> [] \<Longrightarrow> \<not> isspace (last (strip s))"
proof -
  assume a: "strip s \<noteq> []"
  let ?t = "dropWhile isspace s"
  have d: "dropWhile isspace (rev ?t) \<noteq> []" using a by (simp add: strip_def)
  have "last (strip s) = hd (dropWhile isspace (rev ?t))"
    using d by (simp add: strip_def last_rev)
  then show ?thesis using hd_dropWhile [OF d] by simp
qed

lemma split_None_1_no_space:
  assumes "ln \<noteq> []" and "\<forall>c\<in>set ln. \<not> isspace c"
  shows "split_None 1 ln = [ln]"
proof -
  have d: "dropWhile isspace ln = ln" using assms by (cases ln) auto
  have t: "takeWhile (\<lambda>c. \<not> isspace c) ln = ln" using assms(2) by (simp add: takeWhile_eq_all_conv)
  have r: "dropWhile (\<lambda>c. \<not> isspace c) ln = []" using assms(2) by simp
  show ?thesis using assms(1) by (simp add: d t r Let_def del: dropWhile_eq_Nil_conv)
qed

lemma split_None_1_space:
  assumes "ln \<noteq> []" and "\<not> isspace (hd ln)" and "\<not> isspace (last ln)" and "\<exists>c\<in>set ln. isspace c"
  shows "split_None 1 ln =
           [takeWhile (\<lambda>c. \<not> isspace c) ln, dropWhile isspace (dropWhile (\<lambda>c. \<not> isspace c) ln)]"
proof -
  let ?rest = "dropWhile (\<lambda>c. \<not> isspace c) ln"
  have d: "dropWhile isspace ln = ln" using assms(1,2) by (cases ln) auto
  have r: "?rest \<noteq> []" using assms(4) by auto
  have "last ?rest = last ln" using r by (simp add: last_dropWhile)
  then have "\<not> isspace (last ?rest)" using assms(3) by simp
  then have "dropWhile isspace ?rest \<noteq> []" using r
    by (metis dropWhile_eq_Nil_conv last_in_set)
  then show ?thesis using assms(1) r by (simp add: d Let_def del: dropWhile_eq_Nil_conv)
qed

lemma parse_ssh_config_loop_error:
  assumes "\<exists>l\<in>set ls. strip l \<noteq> [] \<and> \<not> startswith (strip l) ''#'' \<and> (\<forall>c\<in>set (strip l). \<not> isspace c)"
  shows "parse_ssh_config_loop acc ls = Inl ValueError"
  using assms
proof (induction ls arbitrary: acc)
  case Nil
  then show ?case by simp
next
  case (Cons l ls)
  show ?case
  proof (cases "strip l = [] \<or> startswith (strip l) ''#''")
    case True
    then have "\<exists>l\<in>set ls. strip l \<noteq> [] \<and> \<not> startswith (strip l) ''#'' \<and> (\<forall>c\<in>set (strip l). \<not> isspace c)"
      using Cons.prems by auto
    from Cons.IH [OF this] show ?thesis using True by (simp add: Let_def)
  next
    case False
    show ?thesis
    proof (cases "\<forall>c\<in>set (strip l). \<not> isspace c")
      case True
      have "split_None 1 (strip l) = [strip l]"
        using False True by (intro split_None_1_no_space) auto
      then show ?thesis using False by (simp add: Let_def)
    next
      case sp: False
      have s: "split_None 1 (strip l) =
                 [takeWhile (\<lambda>c. \<not> isspace c) (strip l),
                  dropWhile isspace (dropWhile (\<lambda>c. \<not> isspace c) (strip l))]"
        using False sp strip_hd [of l] strip_last [of l] by (intro split_None_1_space) auto
      have "\<exists>l\<in>set ls. strip l \<noteq> [] \<and> \<not> startswith (strip l) ''#'' \<and> (\<forall>c\<in>set (strip l). \<not> isspace c)"
        using Cons.prems sp by auto
      from Cons.IH [OF this] show ?thesis using False s by (simp add: Let_def)
    qed
  qed
qed

lemma parse_ssh_config_loop_ok:
  assumes "\<forall>l\<in>set ls. strip l = [] \<or> startswith (strip l) ''#'' \<or> (\<exists>c\<in>set (strip l). isspace c)"
    and "conv = (\<lambda>l. if strip l = [] \<or> startswith (strip l) ''#''
                      then \<lparr>line = strip l, key_raw = None, val = None\<rparr>
                      else \<lparr>line = strip l,
                            key_raw = Some (takeWhile (\<lambda>c. \<not> isspace c) (strip l)),
                            val = Some (dropWhile isspace (dropWhile (\<lambda>c. \<not> isspace c) (strip l)))\<rparr>)"
  shows "parse_ssh_config_loop acc ls = Inr (acc @ map conv ls)"
  using assms(1)
proof (induction ls arbitrary: acc)
  case Nil
  then show ?case by simp
next
  case (Cons l ls)
  have rest: "\<forall>l\<in>set ls. strip l = [] \<or> startswith (strip l) ''#'' \<or> (\<exists>c\<in>set (strip l). isspace c)"
    using Cons.prems by simp
  show ?case
  proof (cases "strip l = [] \<or> startswith (strip l) ''#''")
    case True
    then have c: "conv l = \<lparr>line = strip l, key_raw = None, val = None\<rparr>"
      by (simp add: assms(2))
    have "parse_ssh_config_loop acc (l # ls) = parse_ssh_config_loop (acc @ [conv l]) ls"
      using True c by (simp add: Let_def)
    then show ?thesis using Cons.IH [OF rest, of "acc @ [conv l]"] by simp
  next
    case False
    then have sp: "\<exists>c\<in>set (strip l). isspace c" using Cons.prems by simp
    let ?k = "takeWhile (\<lambda>c. \<not> isspace c) (strip l)"
    let ?v = "dropWhile isspace (dropWhile (\<lambda>c. \<not> isspace c) (strip l))"
    have c: "conv l = \<lparr>line = strip l, key_raw = Some ?k, val = Some ?v\<rparr>"
      using False by (simp add: assms(2))
    have s: "split_None 1 (strip l) = [?k, ?v]"
      using False sp strip_hd [of l] strip_last [of l] by (intro split_None_1_space) auto
    have "parse_ssh_config_loop acc (l # ls) = parse_ssh_config_loop (acc @ [conv l]) ls"
      using False s c by (simp add: Let_def)
    then show ?thesis using Cons.IH [OF rest, of "acc @ [conv l]"] by simp
  qed
qed

lemma parse_ssh_config_loop_passthrough:
  assumes "parse_ssh_config_loop [] ls = Inr r" and "i < length ls"
    and "strip (ls ! i) = [] \<or> startswith (strip (ls ! i)) ''#''"
  shows "i < length r \<and> r ! i = \<lparr>line = strip (ls ! i), key_raw = None, val = None\<rparr>"
proof -
  let ?conv = "\<lambda>l. if strip l = [] \<or> startswith (strip l) ''#''
                      then \<lparr>line = strip l, key_raw = None, val = None\<rparr>
                      else \<lparr>line = strip l,
                            key_raw = Some (takeWhile (\<lambda>c. \<not> isspace c) (strip l)),
                            val = Some (dropWhile isspace (dropWhile (\<lambda>c. \<not> isspace c) (strip l)))\<rparr>"
  have ok: "\<forall>l\<in>set ls. strip l = [] \<or> startswith (strip l) ''#'' \<or> (\<exists>c\<in>set (strip l). isspace c)"
  proof (rule ccontr)
    assume "\<not> ?thesis"
    then have "\<exists>l\<in>set ls. strip l \<noteq> [] \<and> \<not> startswith (strip l) ''#'' \<and> (\<forall>c\<in>set (strip l). \<not> isspace c)"
      by blast
    from parse_ssh_config_loop_error [OF this, of "[]"] assms(1) show False by simp
  qed
  have "parse_ssh_config_loop [] ls = Inr ([] @ map ?conv ls)"
    by (rule parse_ssh_config_loop_ok [OF ok refl])
  then have "r = map ?conv ls" using assms(1) by simp
  then show ?thesis using assms(2,3) by simp
qed

text \<open>
  C9: when some line of the file, trimmed, is not empty, does not start with \<^verbatim>\<open>#\<close>
  and holds no whitespace (a keyword without a value), \<open>parse_ssh_config\<close> raises
  \<^verbatim>\<open>ValueError\<close>, and so does its caller \<open>parse_ssh_config_map\<close>: the error is
  passed on, and the line is not skipped.  When the file has no such line the parser
  returns one entry for each line.  Whenever it returns, the entry of a blank or comment
  line is a passthrough entry: the trimmed line with the key unset.
\<close>

theorem parse_ssh_config_strict:
  "((\<exists>l\<in>set (splitlines content).
        strip l \<noteq> [] \<and> \<not> startswith (strip l) ''#'' \<and> (\<forall>c\<in>set (strip l). \<not> isspace c))
     \<longrightarrow> parse_ssh_config (Some content) = Inl ValueError
         \<and> parse_ssh_config_map (Some content) = Inl ValueError)
   \<and> (\<not> (\<exists>l\<in>set (splitlines content).
        strip l \<noteq> [] \<and> \<not> startswith (strip l) ''#'' \<and> (\<forall>c\<in>set (strip l). \<not> isspace c))
     \<longrightarrow> (\<exists>r. parse_ssh_config (Some content) = Inr r \<and> length r = length (splitlines content)))
   \<and> (\<forall>r i. parse_ssh_config (Some content) = Inr r \<and> i < length (splitlines content)
          \<and> (strip (splitlines content ! i) = [] \<or> startswith (strip (splitlines content ! i)) ''#'')
     \<longrightarrow> i < length r
         \<and> r ! i = \<lparr>line = strip (splitlines content ! i), key_raw = None, val = None\<rparr>
         \<and> key (r ! i) = None)"
proof (intro conjI impI allI)
  assume a: "\<exists>l\<in>set (splitlines content).
        strip l \<noteq> [] \<and> \<not> startswith (strip l) ''#'' \<and> (\<forall>c\<in>set (strip l). \<not> isspace c)"
  show e: "parse_ssh_config (Some content) = Inl ValueError"
    using parse_ssh_config_loop_error [OF a] by (simp add: parse_ssh_config_def)
  show "parse_ssh_config_map (Some content) = Inl ValueError"
    using e by (simp add: parse_ssh_config_map_def)
next
  assume "\<not> (\<exists>l\<in>set (splitlines content).
        strip l \<noteq> [] \<and> \<not> startswith (strip l) ''#'' \<and> (\<forall>c\<in>set (strip l). \<not> isspace c))"
  then have "\<forall>l\<in>set (splitlines content). strip l = [] \<or> startswith (strip l) ''#'' \<or> (\<exists>c\<in>set (strip l). isspace c)"
    by blast
  from parse_ssh_config_loop_ok [OF this refl, of "[]"]
  show "\<exists>r. parse_ssh_config (Some content) = Inr r \<and> length r = length (splitlines content)"
    by (simp add: parse_ssh_config_def)
next
  fix r i
  assume a: "parse_ssh_config (Some content) = Inr r \<and> i < length (splitlines content)
          \<and> (strip (splitlines content ! i) = [] \<or> startswith (strip (splitlines content ! i)) ''#'')"
  then have "parse_ssh_config_loop [] (splitlines content) = Inr r"
    by (simp add: parse_ssh_config_def)
  from parse_ssh_config_loop_passthrough [OF this, of i] a
  have p: "i < length r \<and> r ! i = \<lparr>line = strip (splitlines content ! i), key_raw = None, val = None\<rparr>"
    by simp
  then show "i < length r" and "r ! i = \<lparr>line = strip (splitlines content ! i), key_raw = None, val = None\<rparr>"
    by simp_all
  show "key (r ! i) = None" using p by (simp add: key_def)
qed

text \<open>
  A file whose third line is the keyword \<^verbatim>\<open>UsePAM\<close> alone, and a file with a
  comment, a blank line and a well-formed directive.
\<close>

theorem parse_ssh_config_strict_witness:
  "parse_ssh_config (Some (''# c'' @ [CHR 0x0A] @ ''Port 22'' @ [CHR 0x0A] @ ''UsePAM'')) = Inl ValueError
   \<and> parse_ssh_config_map (Some (''# c'' @ [CHR 0x0A] @ ''Port 22'' @ [CHR 0x0A] @ ''UsePAM'')) = Inl ValueError
   \<and> (\<exists>r. parse_ssh_config (Some (''# c'' @ [CHR 0x0A, CHR 0x0A] @ ''Port 22'')) = Inr r
          \<and> length r = 3
          \<and> r ! 0 = \<lparr>line = ''# c'', key_raw = None, val = None\<rparr>
          \<and> r ! 1 = \<lparr>line = [], key_raw = None, val = None\<rparr>)"
proof -
  let ?bad = "''# c'' @ [CHR 0x0A] @ ''Port 22'' @ [CHR 0x0A] @ ''UsePAM''"
  let ?good = "''# c'' @ [CHR 0x0A, CHR 0x0A] @ ''Port 22''"
  have lb: "splitlines ?bad = [''# c'', ''Port 22'', ''UsePAM'']"
    by (simp add: splitlines_def)
  have lg: "splitlines ?good = [''# c'', [], ''Port 22'']"
    by (simp add: splitlines_def)
  have sb: "strip ''UsePAM'' = ''UsePAM''" "strip ''# c'' = ''# c''" "strip ''Port 22'' = ''Port 22''"
    "strip [] = []"
    by (simp_all add: strip_def isspace_def)
  have b: "\<exists>l\<in>set (splitlines ?bad).
        strip l \<noteq> [] \<and> \<not> startswith (strip l) ''#'' \<and> (\<forall>c\<in>set (strip l). \<not> isspace c)"
    unfolding lb by (simp add: sb startswith_def isspace_def)
  have g: "\<not> (\<exists>l\<in>set (splitlines ?good).
        strip l \<noteq> [] \<and> \<not> startswith (strip l) ''#'' \<and> (\<forall>c\<in>set (strip l). \<not> isspace c))"
    unfolding lg by (simp add: sb startswith_def isspace_def)
  note tb = parse_ssh_config_strict [of ?bad]
  note tg = parse_ssh_config_strict [of ?good]
  from tb b have 1: "parse_ssh_config (Some ?bad) = Inl ValueError"
    and 2: "parse_ssh_config_map (Some ?bad) = Inl ValueError"
    by blast+
  from tg g obtain r where r: "parse_ssh_config (Some ?good) = Inr r" "length r = length (splitlines ?good)"
    by blast
  from tg r(1) have p: "\<And>i. i < length (splitlines ?good) \<Longrightarrow>
      strip (splitlines ?good ! i) = [] \<or> startswith (strip (splitlines ?good ! i)) ''#'' \<Longrightarrow>
      r ! i = \<lparr>line = strip (splitlines ?good ! i), key_raw = None, val = None\<rparr>"
    by blast
  have r0: "r ! 0 = \<lparr>line = ''# c'', key_raw = None, val = None\<rparr>"
    using p [of 0] unfolding lg by (simp add: sb startswith_def)
  have r1: "r ! 1 = \<lparr>line = [], key_raw = None, val = None\<rparr>"
    using p [of 1] unfolding lg by (simp add: sb)
  have "length r = 3" using r(2) unfolding lg by simp
  then show ?thesis using 1 2 r(1) r0 r1 by blast
qed

section \<open>The options field\<close>

lemma split_char_nonempty [simp]: "split_char d s \<noteq> []"
  by (induction s) (auto split: list.splits)






lemma process_line_state:
  "process_line r cs = Inr r' \<Longrightarrow> state r' = START_RECORD"
proof (induction cs arbitrary: r)
  case Nil
  then show ?case
    by (cases "state r")
      (auto simp add: parse_process_char_def start_field_def parse_save_field_def split: if_splits)
next
  case (Cons c cs)
  then show ?case by (auto split: if_splits sum.splits)
qed


lemma parse_options_branch:
  assumes "ent = strip (rstrip_chars [CHR 0x0D, CHR 0x0A] src_line)"
    and "\<not> startswith (rstrip_chars [CHR 0x0D, CHR 0x0A] src_line) ''#''"
    and "4 \<le> length (split_None 3 ent)"
  shows "parse src_line def_opt =
           (case extract_options ent of
              Inl e \<Rightarrow> Inl e
            | Inr (options_lst, toks) \<Rightarrow>
                Inr (form_components src_line toks
                       (if options_lst \<noteq> [] then Some (join '','' options_lst) else def_opt)))"
proof -
  have "ent \<noteq> []" using assms(3) by (auto simp add: numeral_3_eq_3)
  then show ?thesis using assms
    by (simp add: parse_def Let_def split: sum.splits prod.splits)
qed

lemma strip_nonempty: "c \<in> set s \<Longrightarrow> \<not> isspace c \<Longrightarrow> strip s \<noteq> []"
proof -
  assume c: "c \<in> set s" "\<not> isspace c"
  then have 1: "c \<in> set (dropWhile isspace s)"
    by (metis dropWhile_append3 in_set_conv_decomp set_dropWhileD split_list_first takeWhile_dropWhile_id set_append Un_iff set_takeWhileD)
  then have "c \<in> set (rev (dropWhile isspace s))" by simp
  then have "dropWhile isspace (rev (dropWhile isspace s)) \<noteq> []"
    using c(2) by (metis dropWhile_eq_Nil_conv)
  then show ?thesis by (simp add: strip_def)
qed

lemma form_components_options [simp]: "options (form_components src toks opts) = opts"
  by (simp add: form_components_def mk_AuthKeyLine_def)

lemma form_components_source [simp]: "source (form_components src toks opts) = src"
  by (simp add: form_components_def mk_AuthKeyLine_def)

text \<open>
  C3: the code does not do what the claim says.  In the line
  \<^verbatim>\<open>command="a, b" ssh-rsa AAAA comment\<close> the options field is \<^verbatim>\<open>command="a, b"\<close>.
  Split at the commas outside quotes only (\<open>spec_options\<close>) it is one option and stays
  as it is.  The csv reader, run with \<^verbatim>\<open>QUOTE_NONE\<close>, splits it at the quoted comma
  into \<^verbatim>\<open>command="a\<close> and \<^verbatim>\<open> b"\<close>; the pieces are stripped and joined
  again, and the options of the entry are \<^verbatim>\<open>command="a,b"\<close>: the quoted content has
  lost its space, against the function's own comment
  (\<^verbatim>\<open>so we don't mess up any of the quoting that is already there\<close>) and docstring
  (spaces are permitted within double quotes).
\<close>

theorem parse_quoted_comma_space_lost:
  \<open>scan_options ''command="a, b" ssh-rsa AAAA comment'' False 0 = 14
   \<and> take 14 ''command="a, b" ssh-rsa AAAA comment'' = ''command="a, b"''
   \<and> spec_options ''command="a, b"'' = [''command="a, b"'']
   \<and> extract_options ''command="a, b" ssh-rsa AAAA comment''
       = Inr ([''command="a'', ''b"''], [''ssh-rsa'', ''AAAA'', ''comment''])
   \<and> parse ''command="a, b" ssh-rsa AAAA comment'' None
       = Inr (mk_AuthKeyLine ''command="a, b" ssh-rsa AAAA comment''
                (Some ''ssh-rsa'') (Some ''AAAA'') (Some ''comment'') (Some ''command="a,b"''))
   \<and> ''command="a,b"'' \<noteq> ''command="a, b"''\<close>
proof -
  have sc: \<open>scan_options ''command="a, b" ssh-rsa AAAA comment'' False 0 = 14\<close>
    by (simp add: scan_options.simps)
  have ex: \<open>extract_options ''command="a, b" ssh-rsa AAAA comment''
       = Inr ([''command="a'', ''b"''], [''ssh-rsa'', ''AAAA'', ''comment''])\<close>
    by (simp add: extract_options_def sc Let_def parse_reset_def parse_process_char_def
        start_field_def parse_add_char_def parse_save_field_def field_limit_def strip_def
        isspace_def numeral_2_eq_2)
  have sp: \<open>spec_options ''command="a, b"'' = [''command="a, b"'']\<close>
    by (simp add: spec_options_def strip_def isspace_def)
  have pa: \<open>parse ''command="a, b" ssh-rsa AAAA comment'' None
       = Inr (mk_AuthKeyLine ''command="a, b" ssh-rsa AAAA comment''
                (Some ''ssh-rsa'') (Some ''AAAA'') (Some ''comment'') (Some ''command="a,b"''))\<close>
    by (simp add: parse_def ex Let_def rstrip_chars_def strip_def isspace_def startswith_def
        numeral_3_eq_3 form_components_def)
  show ?thesis using sc ex sp pa by simp
qed

text \<open>
  The line of the specification's example: its quoted comma has no whitespace next to
  it, so the two pieces are joined into the field as it was.
\<close>

lemma parse_quoted_comma_example:
  \<open>parse ''options="a,b" ssh-rsa AAAA comment'' None
     = Inr (mk_AuthKeyLine ''options="a,b" ssh-rsa AAAA comment''
              (Some ''ssh-rsa'') (Some ''AAAA'') (Some ''comment'') (Some ''options="a,b"''))\<close>
proof -
  have sc: \<open>scan_options ''options="a,b" ssh-rsa AAAA comment'' False 0 = 13\<close>
    by (simp add: scan_options.simps)
  have ex: \<open>extract_options ''options="a,b" ssh-rsa AAAA comment''
       = Inr ([''options="a'', ''b"''], [''ssh-rsa'', ''AAAA'', ''comment''])\<close>
    by (simp add: extract_options_def sc Let_def parse_reset_def parse_process_char_def
        start_field_def parse_add_char_def parse_save_field_def field_limit_def strip_def
        isspace_def numeral_2_eq_2)
  show ?thesis
    by (simp add: parse_def ex Let_def rstrip_chars_def strip_def isspace_def startswith_def
        numeral_3_eq_3 form_components_def)
qed




section \<open>Comment and blank lines\<close>

lemma startswith_hash: "startswith s ''#'' \<longleftrightarrow> s \<noteq> [] \<and> hd s = CHR ''#''"
  by (cases s) (auto simp add: startswith_def)

lemma split_None_tokens_nonempty: "t \<in> set (split_None n s) \<Longrightarrow> t \<noteq> []"
proof (induction n arbitrary: s)
  case 0
  then show ?case by (auto simp add: Let_def split: if_splits)
next
  case (Suc n)
  let ?r = "dropWhile isspace s"
  show ?case
  proof (cases "?r = []")
    case True
    then show ?thesis using Suc.prems by (simp add: Let_def del: dropWhile_eq_Nil_conv)
  next
    case False
    then have "\<not> isspace (hd ?r)" by (rule hd_dropWhile)
    then have tk: "takeWhile (\<lambda>c. \<not> isspace c) ?r \<noteq> []"
      using False by (cases ?r) auto
    have "t = takeWhile (\<lambda>c. \<not> isspace c) ?r
          \<or> t \<in> set (split_None n (dropWhile (\<lambda>c. \<not> isspace c) ?r))"
      using Suc.prems False by (simp add: Let_def del: dropWhile_eq_Nil_conv)
    then show ?thesis
    proof
      assume "t = takeWhile (\<lambda>c. \<not> isspace c) ?r"
      then show ?thesis using tk by simp
    next
      assume "t \<in> set (split_None n (dropWhile (\<lambda>c. \<not> isspace c) ?r))"
      then show ?thesis by (rule Suc.IH)
    qed
  qed
qed

lemma split_None_nonempty: "dropWhile isspace s \<noteq> [] \<Longrightarrow> split_None n s \<noteq> []"
  by (cases n) (simp_all add: Let_def)

lemma form_components_base64:
  assumes "toks \<noteq> []" and "length toks < 4" and "\<forall>t\<in>set toks. t \<noteq> []"
  shows "truthy (base64 (form_components src toks d))"
proof -
  have 0: "toks ! 0 \<noteq> []" using assms(1,3) by (simp add: nth_mem)
  have 1: "toks ! 1 \<noteq> []" if "length toks = 3" using that assms(3) by (simp add: nth_mem)
  have "length toks = 1 \<or> length toks = 2 \<or> length toks = 3"
  proof -
    have "length toks \<noteq> 0" using assms(1) by simp
    then show ?thesis using assms(2) by arith
  qed
  then show ?thesis using 0 1 by (auto simp add: form_components_def mk_AuthKeyLine_def)
qed

lemma scan_options_ge: "i \<le> scan_options ent quoted i"
proof (induction ent quoted i rule: scan_options.induct)
  case (1 ent quoted i)
  show ?case
    by (subst scan_options.simps) (use 1 in \<open>auto simp add: Let_def intro: Suc_leD le_trans\<close>)
qed

lemma scan_options_pos:
  assumes "ent \<noteq> []" and "hd ent \<noteq> CHR '' ''" and "hd ent \<noteq> CHR 0x09"
  shows "0 < scan_options ent False 0"
proof -
  have h: "ent ! 0 = hd ent" using assms(1) by (simp add: hd_conv_nth)
  have "scan_options ent False 0 =
          (if 0 + 1 \<ge> length ent then 0 + 1
           else if ent ! 0 = CHR 0x5C \<and> ent ! (0 + 1) = CHR 0x22
                then scan_options ent False (0 + 1 + 1)
           else if ent ! 0 = CHR 0x22 then scan_options ent (\<not> False) (0 + 1)
           else scan_options ent False (0 + 1))"
    by (subst scan_options.simps) (use assms h in simp)
  moreover have "0 + 1 + 1 \<le> scan_options ent False (0 + 1 + 1)" by (rule scan_options_ge)
  moreover have "0 + 1 \<le> scan_options ent (\<not> False) (0 + 1)" by (rule scan_options_ge)
  moreover have "0 + 1 \<le> scan_options ent False (0 + 1)" by (rule scan_options_ge)
  ultimately show ?thesis by (auto split: if_splits)
qed

lemma parse_process_char_rows:
  "parse_process_char r c = Inr r' \<Longrightarrow> set (row r) \<subseteq> set (row r')"
  by (cases "state r")
    (auto simp add: parse_process_char_def start_field_def parse_save_field_def parse_add_char_def
      split: if_splits)

lemma process_line_rows:
  "process_line r cs = Inr r' \<Longrightarrow> set (row r) \<subseteq> set (row r')"
proof (induction cs arbitrary: r)
  case Nil
  then show ?case using parse_process_char_rows by simp
next
  case (Cons c cs)
  then obtain r1 where 1: "parse_process_char r c = Inr r1" and 2: "process_line r1 cs = Inr r'"
    by (auto split: if_splits sum.splits)
  from parse_process_char_rows [OF 1] Cons.IH [OF 2] show ?case by blast
qed

lemma process_line_in_field:
  assumes "state r = IN_FIELD" and "x \<in> set (field r)" and "process_line r cs = Inr r'"
  shows "\<exists>p\<in>set (row r'). x \<in> set p"
  using assms
proof (induction cs arbitrary: r)
  case Nil
  then show ?case
    by (auto simp add: parse_process_char_def parse_save_field_def)
next
  case (Cons c cs)
  then obtain r1 where 1: "parse_process_char r c = Inr r1" and 2: "process_line r1 cs = Inr r'"
    and nz: "c \<noteq> CHR 0x00"
    by (auto split: if_splits sum.splits)
  show ?case
  proof (cases "c = CHR 0x0A \<or> c = CHR 0x0D \<or> c = CHR '',''")
    case True
    then have "field r \<in> set (row r1)"
      using 1 Cons.prems(1) nz
      by (auto simp add: parse_process_char_def parse_save_field_def split: if_splits)
    then have "field r \<in> set (row r')" using process_line_rows [OF 2] by blast
    then show ?thesis using Cons.prems(2) by blast
  next
    case False
    then have "state r1 = IN_FIELD \<and> x \<in> set (field r1)"
      using 1 Cons.prems(1,2) nz
      by (auto simp add: parse_process_char_def parse_add_char_def split: if_splits)
    then show ?thesis using Cons.IH [OF _ _ 2] by blast
  qed
qed

lemma StringIO_lines_first:
  "c \<noteq> CHR 0x0A \<Longrightarrow> \<exists>l ls. StringIO_lines (c # cs) = (c # l) # ls"
  by (cases "StringIO_lines cs") auto

lemma csv_reader_first_char:
  assumes "csv_reader (StringIO_lines (c # cs)) = Inr rows"
    and "c \<noteq> CHR 0x0A" and "c \<noteq> CHR 0x0D" and "c \<noteq> CHR 0x00" and "c \<noteq> CHR '',''"
  shows "\<exists>p\<in>set (concat rows). c \<in> set p"
proof -
  from StringIO_lines_first [OF assms(2), of cs] obtain l ls where
    sl: "StringIO_lines (c # cs) = (c # l) # ls" by blast
  from assms(1) sl obtain r rows' where
    pl: "process_line parse_reset (c # l) = Inr r" and rows: "rows = row r # rows'"
    by (auto split: sum.splits)
  let ?r1 = "\<lparr>state = IN_FIELD, row = [], field = [c]\<rparr>"
  have "parse_process_char parse_reset c = Inr ?r1"
    using assms(2-5)
    by (simp add: parse_process_char_def parse_reset_def start_field_def parse_add_char_def
        field_limit_def)
  then have "process_line ?r1 l = Inr r" using pl assms(4) by simp
  from process_line_in_field [OF _ _ this, of c] have "\<exists>p\<in>set (row r). c \<in> set p" by simp
  then show ?thesis using rows by auto
qed

lemma join_nonempty: "xs \<noteq> [] \<Longrightarrow> hd xs \<noteq> [] \<Longrightarrow> join sep xs \<noteq> []"
  by (induction sep xs rule: join.induct) auto

lemma extract_options_hash:
  assumes "ent \<noteq> []" and "hd ent = CHR ''#''" and "extract_options ent = Inr (options_lst, toks)"
  shows "options_lst \<noteq> [] \<and> join '','' options_lst \<noteq> []"
proof -
  let ?i = "scan_options ent False 0"
  have pos: "0 < ?i" using assms(1,2) by (intro scan_options_pos) auto
  obtain cs where ent: "ent = CHR ''#'' # cs" using assms(1,2) by (cases ent) auto
  have tk: "take ?i ent = CHR ''#'' # take (?i - 1) cs"
    using pos ent by (cases ?i) auto
  from assms(3) obtain rows where
    rows: "csv_reader (StringIO_lines (CHR ''#'' # take (?i - 1) cs)) = Inr rows"
    and ol: "options_lst = filter (\<lambda>e. e \<noteq> []) (map strip (concat rows))"
    unfolding extract_options_def Let_def tk by (auto split: sum.splits)
  from csv_reader_first_char [OF rows] obtain p where
    p: "p \<in> set (concat rows)" "CHR ''#'' \<in> set p" by auto
  have "strip p \<noteq> []" by (rule strip_nonempty [OF p(2)]) (simp add: isspace_def)
  then have "strip p \<in> set options_lst" using p(1) by (simp add: ol)
  then have ne: "options_lst \<noteq> []" by auto
  have "hd options_lst \<in> set options_lst" using ne by simp
  then have "hd options_lst \<noteq> []" by (simp add: ol)
  then show ?thesis using ne join_nonempty by blast
qed

text \<open>
  C5, as stated, fails for a \<^verbatim>\<open>#\<close> that follows leading whitespace:
  \<^verbatim>\<open>startswith("#")\<close> looks at the first character of the line.  The first character
  of \<^verbatim>\<open>" #x"\<close> that is not whitespace is \<^verbatim>\<open>#\<close>, and the line is parsed as a key
  with \<open>base64 = #x\<close>.
\<close>

theorem parse_indented_hash_counterexample:
  "hd (dropWhile isspace (rstrip_chars [CHR 0x0D, CHR 0x0A] '' #x'')) = CHR ''#''
   \<and> parse '' #x'' None = Inr (mk_AuthKeyLine '' #x'' None (Some ''#x'') None None)
   \<and> \<not> empty_entry (mk_AuthKeyLine '' #x'' None (Some ''#x'') None None)"
  by (simp add: parse_def rstrip_chars_def strip_def isspace_def startswith_def numeral_3_eq_3
      form_components_def mk_AuthKeyLine_def empty_entry_def Let_def)

lemma not_empty_entry: "truthy (base64 e) \<or> truthy (options e) \<Longrightarrow> \<not> empty_entry e"
  by (auto simp add: empty_entry_def)

text \<open>
  C5, amended: for every raw line which, after its trailing CR and LF characters are
  stripped, is empty when trimmed or has \<^verbatim>\<open>#\<close> as its first character, \<open>parse\<close>
  raises no error and returns an empty entry (no keytype, base64, comment or options,
  whatever the default options) whose \<open>source\<close> is the raw line; the entry is rendered
  as the raw line.  A line whose first character that is not whitespace is \<^verbatim>\<open>#\<close>,
  but which starts with whitespace, is not taken for a comment: every entry that \<open>parse\<close>
  returns for it is not empty and has the raw line as its source; with fewer than 4
  whitespace tokens \<open>parse\<close> does return, an entry with a non-empty base64;
  with 4 tokens it can raise the error of the csv reader, as for the line
  \<^verbatim>\<open> #\rx a b c\<close> (a CR after the \<^verbatim>\<open>#\<close>).
\<close>

theorem parse_comment_or_blank:
  assumes "ln = rstrip_chars [CHR 0x0D, CHR 0x0A] src_line"
  shows "(strip ln = [] \<or> (ln \<noteq> [] \<and> hd ln = CHR ''#'') \<longrightarrow>
            parse src_line def_opt = Inr (mk_AuthKeyLine src_line None None None None)
            \<and> empty_entry (mk_AuthKeyLine src_line None None None None)
            \<and> source (mk_AuthKeyLine src_line None None None None) = src_line
            \<and> str_AuthKeyLine (mk_AuthKeyLine src_line None None None None) = src_line)
         \<and> (strip ln \<noteq> [] \<and> hd ln \<noteq> CHR ''#'' \<and> hd (strip ln) = CHR ''#'' \<longrightarrow>
              (\<forall>e. parse src_line def_opt = Inr e \<longrightarrow> \<not> empty_entry e \<and> source e = src_line)
              \<and> (length (split_None 3 (strip ln)) < 4 \<longrightarrow>
                   parse src_line def_opt
                     = Inr (form_components src_line (split_None 3 (strip ln)) def_opt)
                   \<and> truthy (base64 (form_components src_line (split_None 3 (strip ln)) def_opt))))
         \<and> parse ('' #'' @ [CHR 0x0D] @ ''x a b c'') None = Inl csv_Error"
proof (intro conjI impI)
  assume "strip ln = [] \<or> (ln \<noteq> [] \<and> hd ln = CHR ''#'')"
  then show "parse src_line def_opt = Inr (mk_AuthKeyLine src_line None None None None)"
    using assms by (auto simp add: parse_def startswith_hash)
next
  show "empty_entry (mk_AuthKeyLine src_line None None None None)"
    by (simp add: mk_AuthKeyLine_def empty_entry_def)
  show "source (mk_AuthKeyLine src_line None None None None) = src_line"
    by (simp add: mk_AuthKeyLine_def)
  show "str_AuthKeyLine (mk_AuthKeyLine src_line None None None None) = src_line"
    by (simp add: mk_AuthKeyLine_def str_AuthKeyLine_def str_toks_def)
next
  assume a: "strip ln \<noteq> [] \<and> hd ln \<noteq> CHR ''#'' \<and> hd (strip ln) = CHR ''#''"
  let ?ent = "strip ln"
  let ?toks = "split_None 3 ?ent"
  have ns: "\<not> startswith (rstrip_chars [CHR 0x0D, CHR 0x0A] src_line) ''#''"
    using a assms by (simp add: startswith_hash)
  have nb: "strip (rstrip_chars [CHR 0x0D, CHR 0x0A] src_line) \<noteq> []" using a assms by simp
  have ent: "?ent = strip (rstrip_chars [CHR 0x0D, CHR 0x0A] src_line)" using assms by simp
  have "\<not> isspace (hd ?ent)" using a by (simp add: isspace_def)
  then have "dropWhile isspace ?ent = ?ent" using a by (cases ?ent) auto
  then have tne: "?toks \<noteq> []" using a split_None_nonempty [of ?ent 3] by simp
  have tok: "\<forall>t\<in>set ?toks. t \<noteq> []" using split_None_tokens_nonempty by blast
  have few: "parse src_line def_opt = Inr (form_components src_line ?toks def_opt)
             \<and> truthy (base64 (form_components src_line ?toks def_opt))"
    if "length ?toks < 4"
  proof -
    have "parse src_line def_opt = Inr (form_components src_line ?toks def_opt)"
      using that ns nb assms by (simp add: parse_def Let_def)
    then show ?thesis using form_components_base64 [OF tne that tok] by simp
  qed
  show "\<forall>e. parse src_line def_opt = Inr e \<longrightarrow> \<not> empty_entry e \<and> source e = src_line"
  proof (intro allI impI)
    fix e
    assume p: "parse src_line def_opt = Inr e"
    show "\<not> empty_entry e \<and> source e = src_line"
    proof (cases "length ?toks < 4")
      case True
      from few [OF True] p have "e = form_components src_line ?toks def_opt"
        and "truthy (base64 (form_components src_line ?toks def_opt))" by simp_all
      then show ?thesis using not_empty_entry by simp
    next
      case False
      then have "4 \<le> length ?toks" by simp
      from parse_options_branch [OF ent ns this, of def_opt] p
      obtain options_lst toks' where
        ex: "extract_options ?ent = Inr (options_lst, toks')"
        and e: "e = form_components src_line toks'
                      (if options_lst \<noteq> [] then Some (join '','' options_lst) else def_opt)"
        by (auto split: sum.splits)
      from extract_options_hash [OF _ _ ex] a
      have "options_lst \<noteq> [] \<and> join '','' options_lst \<noteq> []" by simp
      then have "truthy (options e)" and "source e = src_line" using e by simp_all
      then show ?thesis using not_empty_entry by blast
    qed
  qed
  show "parse src_line def_opt = Inr (form_components src_line ?toks def_opt)"
    if "length ?toks < 4" using few [OF that] by simp
  show "truthy (base64 (form_components src_line ?toks def_opt))"
    if "length ?toks < 4" using few [OF that] by simp
next
  have sc: "scan_options (CHR ''#'' # CHR 0x0D # ''x a b c'') False 0 = 3"
    by (simp add: scan_options.simps)
  have ex: "extract_options (CHR ''#'' # CHR 0x0D # ''x a b c'') = Inl csv_Error"
    by (simp add: extract_options_def sc Let_def parse_reset_def parse_process_char_def
        start_field_def parse_add_char_def parse_save_field_def field_limit_def)
  show "parse ('' #'' @ [CHR 0x0D] @ ''x a b c'') None = Inl csv_Error"
    using ex
    by (simp add: parse_def Let_def rstrip_chars_def strip_def isspace_def startswith_def
        numeral_3_eq_3)
qed

text \<open>
  A comment line that ends in CR LF, with default options; a line of whitespace; and two
  indented lines: \<^verbatim>\<open> #x\<close> becomes a key with base64 \<^verbatim>\<open>#x\<close>, and
  \<^verbatim>\<open> # ssh-rsa AAAA me\<close> a key with the options \<^verbatim>\<open>#\<close>.
\<close>

theorem parse_comment_or_blank_witness:
  "parse (''# a b c d e'' @ [CHR 0x0D, CHR 0x0A]) (Some ''opt'')
     = Inr (mk_AuthKeyLine (''# a b c d e'' @ [CHR 0x0D, CHR 0x0A]) None None None None)
   \<and> parse [CHR '' '', CHR 0x09, CHR 0x0A] None
     = Inr (mk_AuthKeyLine [CHR '' '', CHR 0x09, CHR 0x0A] None None None None)
   \<and> parse '' #x'' None = Inr (mk_AuthKeyLine '' #x'' None (Some ''#x'') None None)
   \<and> parse '' # ssh-rsa AAAA me'' None
       = Inr (mk_AuthKeyLine '' # ssh-rsa AAAA me'' (Some ''ssh-rsa'') (Some ''AAAA'') (Some ''me'') (Some ''#''))
   \<and> \<not> empty_entry (mk_AuthKeyLine '' # ssh-rsa AAAA me'' (Some ''ssh-rsa'') (Some ''AAAA'') (Some ''me'') (Some ''#''))"
proof -
  note t1 = parse_comment_or_blank [of "''# a b c d e''" "''# a b c d e'' @ [CHR 0x0D, CHR 0x0A]" "Some ''opt''"]
  note t2 = parse_comment_or_blank [of "[CHR '' '', CHR 0x09]" "[CHR '' '', CHR 0x09, CHR 0x0A]" None]
  note t3 = parse_comment_or_blank [of "'' #x''" "'' #x''" None]
  note t4 = parse_comment_or_blank [of "'' # ssh-rsa AAAA me''" "'' # ssh-rsa AAAA me''" None]
  have 1: "parse (''# a b c d e'' @ [CHR 0x0D, CHR 0x0A]) (Some ''opt'')
     = Inr (mk_AuthKeyLine (''# a b c d e'' @ [CHR 0x0D, CHR 0x0A]) None None None None)"
    using t1 by (simp add: rstrip_chars_def strip_def isspace_def)
  have 2: "parse [CHR '' '', CHR 0x09, CHR 0x0A] None
     = Inr (mk_AuthKeyLine [CHR '' '', CHR 0x09, CHR 0x0A] None None None None)"
    using t2 by (simp add: rstrip_chars_def strip_def isspace_def)
  have s3: "strip '' #x'' = ''#x''" by (simp add: strip_def isspace_def)
  have k3: "split_None 3 ''#x'' = [''#x'']" by (simp add: isspace_def numeral_3_eq_3)
  have 3: "parse '' #x'' None = Inr (mk_AuthKeyLine '' #x'' None (Some ''#x'') None None)"
    using t3 by (simp add: rstrip_chars_def s3 k3 form_components_def)
  have sc: "scan_options ''# ssh-rsa AAAA me'' False 0 = 1"
    by (simp add: scan_options.simps)
  have ex: "extract_options ''# ssh-rsa AAAA me'' = Inr ([''#''], [''ssh-rsa'', ''AAAA'', ''me''])"
    by (simp add: extract_options_def sc Let_def parse_reset_def parse_process_char_def
        start_field_def parse_add_char_def parse_save_field_def field_limit_def strip_def
        isspace_def numeral_2_eq_2)
  have 4: "parse '' # ssh-rsa AAAA me'' None
       = Inr (mk_AuthKeyLine '' # ssh-rsa AAAA me'' (Some ''ssh-rsa'') (Some ''AAAA'') (Some ''me'') (Some ''#''))"
    by (simp add: parse_def ex Let_def rstrip_chars_def strip_def isspace_def startswith_def
        numeral_3_eq_3 form_components_def)
  have s4: "strip '' # ssh-rsa AAAA me'' = ''# ssh-rsa AAAA me''" by (simp add: strip_def isspace_def)
  have 5: "\<not> empty_entry (mk_AuthKeyLine '' # ssh-rsa AAAA me'' (Some ''ssh-rsa'') (Some ''AAAA'') (Some ''me'') (Some ''#''))"
    using t4 4 by (simp add: rstrip_chars_def s4)
  show ?thesis using 1 2 3 4 5 by simp
qed

end
